theory Spec2Isabelle
  imports Complex_Main "HOL-Library.Log_Nat"
begin

section \<open>JavaScript strings\<close>

text \<open>
  A JavaScript string is a sequence of UTF-16 code units. String literals of the source
  are ASCII and are written through \<open>utf16\<close>.
\<close>

type_synonym jsstring = "nat list"

definition utf16 :: "string \<Rightarrow> jsstring" where
  "utf16 s = map of_char s"

text \<open>
  \<open>String.prototype.trim\<close> removes leading and trailing WhiteSpace and LineTerminator
  code points: TAB, LF, VT, FF, CR, SPACE, NBSP, U+1680, U+2000..U+200A, U+2028, U+2029,
  U+202F, U+205F, U+3000 and U+FEFF.
\<close>

definition is_white_space :: "nat \<Rightarrow> bool" where
  "is_white_space c \<longleftrightarrow>
     c \<in> {9, 10, 11, 12, 13, 32, 160, 5760, 8232, 8233, 8239, 8287, 12288, 65279}
     \<or> (8192 \<le> c \<and> c \<le> 8202)"

definition trim :: "jsstring \<Rightarrow> jsstring" where
  "trim s = rev (dropWhile is_white_space (rev (dropWhile is_white_space s)))"

section \<open>JavaScript numbers\<close>

text \<open>
  A Number is an IEEE-754 double: NaN, an infinity, or a finite value, kept here as the
  rational it denotes. The two zeros are identified: no operation of the program
  (\<open>===\<close>, \<open>||\<close>, \<open>-\<close>, \<open>Number.isFinite\<close>, the sign test of the sort) tells them apart.
\<close>

datatype jsnum = NaN | PosInf | NegInf | Fin rat

definition pow2 :: "int \<Rightarrow> rat" where
  "pow2 e = (if 0 \<le> e then 2 ^ nat e else 1 / 2 ^ nat (- e))"

text \<open>\<open>flog2 p q\<close> is the binary exponent \<open>\<lfloor>log\<^sub>2 (p / q)\<rfloor>\<close> of a positive fraction.\<close>

definition flog2 :: "int \<Rightarrow> int \<Rightarrow> int" where
  "flog2 p q =
     (let d = bitlen p - bitlen q
      in if (if 0 \<le> d then q * 2 ^ nat d \<le> p else q \<le> p * 2 ^ nat (- d)) then d else d - 1)"

definition scale :: "int \<Rightarrow> int \<Rightarrow> int \<Rightarrow> int \<times> int" where
  "scale k p q = (if 0 \<le> k then (p * 2 ^ nat k, q) else (p, q * 2 ^ nat (- k)))"

definition round_half_even :: "int \<Rightarrow> int \<Rightarrow> int" where
  "round_half_even n d =
     (let f = n div d; r = n mod d
      in if 2 * r < d then f else if d < 2 * r then f + 1 else if even f then f else f + 1)"

text \<open>
  Rounding of the positive fraction \<open>p / q\<close> to the nearest double, ties to even: the
  significand has 53 bits, the least exponent is that of the subnormals (quantum
  \<open>2\<^sup>-\<^sup>1\<^sup>0\<^sup>7\<^sup>4\<close>), and a result of \<open>2\<^sup>1\<^sup>0\<^sup>2\<^sup>4\<close> or more overflows (\<open>None\<close>).
\<close>

definition round_pos :: "int \<Rightarrow> int \<Rightarrow> rat option" where
  "round_pos p q =
     (let e = max (flog2 p q) (- 1022);
          (n, d) = scale (52 - e) p q;
          r = of_int (round_half_even n d) * pow2 (e - 52)
      in if pow2 1024 \<le> r then None else Some r)"

definition round_frac :: "int \<Rightarrow> int \<Rightarrow> jsnum" where
  "round_frac p q =
     (if p = 0 then Fin 0
      else if 0 < p then (case round_pos p q of None \<Rightarrow> PosInf | Some r \<Rightarrow> Fin r)
      else (case round_pos (- p) q of None \<Rightarrow> NegInf | Some r \<Rightarrow> Fin (- r)))"

definition round_double :: "rat \<Rightarrow> jsnum" where
  "round_double x = (case quotient_of x of (p, q) \<Rightarrow> round_frac p q)"

text \<open>\<open>Number.isFinite\<close>.\<close>

definition isFinite :: "jsnum \<Rightarrow> bool" where
  "isFinite n = (case n of Fin _ \<Rightarrow> True | _ \<Rightarrow> False)"

text \<open>The \<open>-\<close> operator on Numbers: the exact difference, rounded.\<close>

fun js_minus :: "jsnum \<Rightarrow> jsnum \<Rightarrow> jsnum" where
  "js_minus NaN _ = NaN"
| "js_minus _ NaN = NaN"
| "js_minus PosInf PosInf = NaN"
| "js_minus NegInf NegInf = NaN"
| "js_minus PosInf _ = PosInf"
| "js_minus NegInf _ = NegInf"
| "js_minus (Fin _) PosInf = NegInf"
| "js_minus (Fin _) NegInf = PosInf"
| "js_minus (Fin a) (Fin b) = round_double (a - b)"

text \<open>The relational operators \<open><\<close> and \<open><=\<close> on Numbers: false when an operand is NaN.\<close>

fun js_less :: "jsnum \<Rightarrow> jsnum \<Rightarrow> bool" where
  "js_less NaN _ = False"
| "js_less _ NaN = False"
| "js_less _ NegInf = False"
| "js_less PosInf _ = False"
| "js_less NegInf _ = True"
| "js_less (Fin _) PosInf = True"
| "js_less (Fin a) (Fin b) = (a < b)"

definition js_le :: "jsnum \<Rightarrow> jsnum \<Rightarrow> bool" where
  "js_le a b \<longleftrightarrow> a \<noteq> NaN \<and> b \<noteq> NaN \<and> (a = b \<or> js_less a b)"

text \<open>
  Every finite double is an integer multiple of \<open>2\<^sup>-\<^sup>1\<^sup>0\<^sup>7\<^sup>4\<close>, the least positive double.
  \<open>is_double\<close> says that a value of the model is on that grid, as every Number of a
  running program is.
\<close>

definition on_grid :: "rat \<Rightarrow> bool" where
  "on_grid x \<longleftrightarrow> of_int \<lfloor>x * pow2 1074\<rfloor> = x * pow2 1074"

definition is_double :: "jsnum \<Rightarrow> bool" where
  "is_double n = (case n of Fin x \<Rightarrow> on_grid x | _ \<Rightarrow> True)"

subsection \<open>\<open>Number\<close> applied to a string\<close>

text \<open>
  The StringNumericLiteral grammar of ECMAScript: surrounding white space is ignored, the
  empty string is \<open>0\<close>, a decimal literal may carry a sign, a fraction and an exponent,
  \<open>Infinity\<close> is spelled exactly so, and unsigned binary, octal and hexadecimal integers
  are accepted with the prefixes \<open>0b\<close>, \<open>0o\<close>, \<open>0x\<close>. Anything else is NaN. The
  mathematical value is rounded to the nearest double.
\<close>

definition is_digit :: "nat \<Rightarrow> nat \<Rightarrow> bool" where
  "is_digit b c \<longleftrightarrow>
     (48 \<le> c \<and> c < 48 + min b 10)
     \<or> (b = 16 \<and> ((97 \<le> c \<and> c \<le> 102) \<or> (65 \<le> c \<and> c \<le> 70)))"

definition digit_value :: "nat \<Rightarrow> int" where
  "digit_value c = (if c \<le> 57 then int c - 48 else if c \<le> 70 then int c - 55 else int c - 87)"

definition digits_value :: "int \<Rightarrow> jsstring \<Rightarrow> int" where
  "digits_value b ds = foldl (\<lambda>acc c. b * acc + digit_value c) 0 ds"

definition non_decimal :: "jsstring \<Rightarrow> int option" where
  "non_decimal s =
     (case s of
        z # x # ds \<Rightarrow>
          (let b = (if x = 120 \<or> x = 88 then 16 else if x = 111 \<or> x = 79 then 8
                    else if x = 98 \<or> x = 66 then 2 else 0)
           in if z = 48 \<and> b \<noteq> 0 \<and> ds \<noteq> [] \<and> list_all (is_digit b) ds
              then Some (digits_value (int b) ds) else None)
      | _ \<Rightarrow> None)"

definition exponent_part :: "jsstring \<Rightarrow> int option" where
  "exponent_part s =
     (case s of
        [] \<Rightarrow> Some 0
      | c # t \<Rightarrow>
          if c = 101 \<or> c = 69 then
            (let (neg, ds) = (case t of
                                [] \<Rightarrow> (False, [])
                              | d # u \<Rightarrow> if d = 43 then (False, u) else if d = 45 then (True, u)
                                         else (False, t))
             in if ds \<noteq> [] \<and> list_all (is_digit 10) ds
                then Some (if neg then - digits_value 10 ds else digits_value 10 ds) else None)
          else None)"

text \<open>The value of an unsigned decimal literal, as a fraction of two integers.\<close>

definition unsigned_decimal :: "jsstring \<Rightarrow> (int \<times> int) option" where
  "unsigned_decimal s =
     (let ip = takeWhile (is_digit 10) s;
          r1 = dropWhile (is_digit 10) s;
          (fp, r2) = (case r1 of
                        [] \<Rightarrow> ([], [])
                      | c # t \<Rightarrow> if c = 46 then (takeWhile (is_digit 10) t, dropWhile (is_digit 10) t)
                                 else ([], r1))
      in if ip = [] \<and> fp = [] then None
         else (case exponent_part r2 of
                 None \<Rightarrow> None
               | Some ex \<Rightarrow>
                   (let m = digits_value 10 (ip @ fp); k = ex - int (length fp)
                    in Some (if 0 \<le> k then (m * 10 ^ nat k, 1) else (m, 10 ^ nat (- k))))))"

definition signed_decimal :: "jsstring \<Rightarrow> jsnum" where
  "signed_decimal s =
     (let (neg, u) = (case s of
                        [] \<Rightarrow> (False, [])
                      | c # t \<Rightarrow> if c = 43 then (False, t) else if c = 45 then (True, t)
                                 else (False, s))
      in if u = utf16 ''Infinity'' then (if neg then NegInf else PosInf)
         else (case unsigned_decimal u of
                 None \<Rightarrow> NaN
               | Some (p, q) \<Rightarrow> round_frac (if neg then - p else p) q))"

definition string_to_number :: "jsstring \<Rightarrow> jsnum" where
  "string_to_number s =
     (let t = trim s
      in if t = [] then Fin 0
         else (case non_decimal t of
                 Some n \<Rightarrow> round_frac n 1
               | None \<Rightarrow> signed_decimal t))"

section \<open>Values and rule objects\<close>

text \<open>
  A rule object is built by \<open>mapRowToRule\<close> and never written afterwards; its own
  properties hold trimmed strings, and a number under the key \<open>priority\<close>.
\<close>

datatype field = FStr jsstring | FNum jsnum

type_synonym rule = "jsstring \<rightharpoonup> field"

text \<open>The values a query field can take (\<open>Obj\<close> is an object or array, by identity).\<close>

datatype jsval = Undefined | Null | Bool bool | Num jsnum | Str jsstring | Obj nat

text \<open>Reading a property of a rule, as in \<open>rule.usage\<close>: an absent property is \<open>undefined\<close>.\<close>

definition get_prop :: "rule \<Rightarrow> jsstring \<Rightarrow> jsval" where
  "get_prop r k = (case r k of None \<Rightarrow> Undefined | Some (FStr s) \<Rightarrow> Str s | Some (FNum n) \<Rightarrow> Num n)"

text \<open>Strict equality \<open>===\<close>.\<close>

fun strict_eq :: "jsval \<Rightarrow> jsval \<Rightarrow> bool" where
  "strict_eq Undefined Undefined = True"
| "strict_eq Null Null = True"
| "strict_eq (Bool a) (Bool b) = (a = b)"
| "strict_eq (Num a) (Num b) = (a \<noteq> NaN \<and> a = b)"
| "strict_eq (Str a) (Str b) = (a = b)"
| "strict_eq (Obj a) (Obj b) = (a = b)"
| "strict_eq _ _ = False"

text \<open>Truthiness, as tested by \<open>!v\<close>, \<open>v || w\<close> and \<open>filter\<close>.\<close>

fun to_boolean :: "jsval \<Rightarrow> bool" where
  "to_boolean Undefined = False"
| "to_boolean Null = False"
| "to_boolean (Bool b) = b"
| "to_boolean (Num n) = (n \<noteq> NaN \<and> n \<noteq> Fin 0)"
| "to_boolean (Str s) = (s \<noteq> [])"
| "to_boolean (Obj _) = True"

text \<open>\<open>Number(rule.priority)\<close>: \<open>undefined\<close> converts to NaN, a string is parsed.\<close>

definition priority_number :: "rule \<Rightarrow> jsnum" where
  "priority_number r =
     (case r (utf16 ''priority'') of
        None \<Rightarrow> NaN
      | Some (FStr s) \<Rightarrow> string_to_number s
      | Some (FNum n) \<Rightarrow> n)"

text \<open>The number stored under \<open>priority\<close>, if there is one, is a double.\<close>

definition priority_is_double :: "rule \<Rightarrow> bool" where
  "priority_is_double r =
     (case r (utf16 ''priority'') of Some (FNum n) \<Rightarrow> is_double n | _ \<Rightarrow> True)"

section \<open>loadRules.js\<close>

subsection \<open>mapRowToRule\<close>

text \<open>
  \<open>row[index] !== undefined ? String(row[index]).trim() : ''\<close>: the cells of a row are
  strings, and an index past the end of the row reads \<open>undefined\<close>.
\<close>

definition cell :: "jsstring list \<Rightarrow> nat \<Rightarrow> jsstring" where
  "cell row index = (if index < length row then trim (row ! index) else [])"

text \<open>
  The assignment \<open>rule[key] = value\<close> on an object created by \<open>{}\<close>: it creates or
  overwrites the own property \<open>key\<close>, except for the key \<open>__proto__\<close>, where the
  setter inherited from \<open>Object.prototype\<close> runs instead and ignores a value that is
  neither an object nor \<open>null\<close>.
\<close>

definition assign :: "rule \<Rightarrow> jsstring \<Rightarrow> field \<Rightarrow> rule" where
  "assign r key v = (if key = utf16 ''__proto__'' then r else r(key \<mapsto> v))"

text \<open>The body of the \<open>headers.forEach\<close> callback.\<close>

definition map_column :: "jsstring list \<Rightarrow> rule \<Rightarrow> jsstring \<times> nat \<Rightarrow> rule" where
  "map_column row r hi =
     (case hi of (header, index) \<Rightarrow>
        (let key = trim header
         in if key = [] then r
            else (let v = cell row index
                  in if key = utf16 ''priority''
                     then (let numericPriority = string_to_number v
                           in assign r key
                                (FNum (if isFinite numericPriority then numericPriority else Fin 0)))
                     else assign r key (FStr v))))"

definition mapRowToRule :: "jsstring list \<Rightarrow> jsstring list \<Rightarrow> rule" where
  "mapRowToRule headers row =
     foldl (map_column row) Map.empty (zip headers [0..<length headers])"

text \<open>
  What the callback stores under a key for the column at \<open>index\<close>: the trimmed cell, or
  for the key \<open>priority\<close> the number it converts to, \<open>0\<close> if that is not finite.
\<close>

definition stored :: "jsstring list \<Rightarrow> jsstring \<Rightarrow> nat \<Rightarrow> field" where
  "stored row key index =
     (if key = utf16 ''priority''
      then FNum (if isFinite (string_to_number (cell row index))
                 then string_to_number (cell row index) else Fin 0)
      else FStr (cell row index))"

subsection \<open>The arrays of rules\<close>

text \<open>
  Arrays are mutable and shared by reference, so they live in a heap: an address is an
  index into the list of allocated arrays, and allocation appends. \<open>rules_binding\<close> is
  the module-level variable \<open>let rules\<close> of loadRules.js. \<open>engine_rules\<close> is the constant
  \<open>rules\<close> that ruleEngine.js destructures from \<open>require('./loadRules')\<close> when it is
  loaded: the array that \<open>module.exports.rules\<close> held at that moment.
\<close>

type_synonym addr = nat

record state =
  heap :: "rule list list"
  rules_binding :: addr
  engine_rules :: addr

definition init_state :: state where
  "init_state = \<lparr>heap = [[]], rules_binding = 0, engine_rules = 0\<rparr>"

definition array_at :: "state \<Rightarrow> addr \<Rightarrow> rule list option" where
  "array_at s a = (if a < length (heap s) then Some (heap s ! a) else None)"

definition elements :: "state \<Rightarrow> addr \<Rightarrow> rule list" where
  "elements s a = (case array_at s a of None \<Rightarrow> [] | Some xs \<Rightarrow> xs)"

definition alloc :: "rule list \<Rightarrow> state \<Rightarrow> addr \<times> state" where
  "alloc xs s = (length (heap s), s\<lparr>heap := heap s @ [xs]\<rparr>)"

definition array_write :: "addr \<Rightarrow> rule list \<Rightarrow> state \<Rightarrow> state" where
  "array_write a xs s = s\<lparr>heap := (heap s)[a := xs]\<rparr>"

text \<open>\<open>a.filter(p)\<close> and \<open>a.slice()\<close> return a new array and leave \<open>a\<close> as it is.\<close>

definition array_filter :: "(rule \<Rightarrow> bool) \<Rightarrow> addr \<Rightarrow> state \<Rightarrow> addr \<times> state" where
  "array_filter p a s = alloc (filter p (elements s a)) s"

definition array_slice :: "addr \<Rightarrow> state \<Rightarrow> addr \<times> state" where
  "array_slice a s = alloc (elements s a) s"

subsection \<open>createSheetsClient and the Sheets request\<close>

datatype js_error =
    InputRequired
  | CredentialsNotSet
  | CredentialsInvalidJSON
  | RequestFailed
  | RangeError

text \<open>
  What a load cycle reads from outside the program: the environment variable
  \<open>GOOGLE_CREDENTIALS_JSON\<close>, whether \<open>JSON.parse\<close> accepts its text, and the outcome of
  \<open>sheets.spreadsheets.values.get\<close>: a rejected promise, or a response whose
  \<open>data.values\<close> is a grid of strings, absent when the range holds no cell. The engine
  enters too: \<open>rules.push(...loadedRules)\<close> passes every loaded rule as an argument of one
  call, and a call with more arguments than the engine's stack takes (\<open>max_arguments\<close>)
  throws a \<open>RangeError\<close>. (The second copy of loadRules.js in the repository differs in
  \<open>createSheetsClient\<close> only: it reads \<open>GOOGLE_APPLICATION_CREDENTIALS\<close> and throws when the
  variable is not set or the file it names cannot be read.)
\<close>

datatype sheets_reply = Rejected | Resolved "jsstring list list option"

record env =
  credentials_json :: "jsstring option"
  json_parses :: bool
  reply :: sheets_reply
  max_arguments :: nat

definition createSheetsClient :: "env \<Rightarrow> js_error + unit" where
  "createSheetsClient e =
     (case credentials_json e of
        None \<Rightarrow> Inl CredentialsNotSet
      | Some credentialsJson \<Rightarrow>
          if credentialsJson = [] then Inl CredentialsNotSet
          else if \<not> json_parses e then Inl CredentialsInvalidJSON
          else Inr ())"

subsection \<open>loadRules\<close>

text \<open>
  The header row: every cell trimmed, and the first one renamed \<open>rule_id\<close> whatever it
  was.
\<close>

definition normalize_headers :: "jsstring list \<Rightarrow> jsstring list" where
  "normalize_headers row0 =
     (let headers = map trim row0
      in if length headers > 0 \<and> headers ! 0 \<noteq> utf16 ''rule_id''
         then headers[0 := utf16 ''rule_id''] else headers)"

definition has_rule_id :: "rule \<Rightarrow> bool" where
  "has_rule_id r = to_boolean (get_prop r (utf16 ''rule_id''))"

definition loadedRules :: "jsstring list \<Rightarrow> jsstring list list \<Rightarrow> rule list" where
  "loadedRules headers dataRows =
     filter has_rule_id (map (mapRowToRule headers) (filter (\<lambda>row. length row > 0) dataRows))"

text \<open>
  The promise returned by \<open>loadRules\<close>: rejected with an error, or resolved with the array
  that the variable \<open>rules\<close> names. Everything after the \<open>await\<close> runs without
  interruption, so a call is one step on the state. The array is emptied by
  \<open>rules.length = 0\<close> before \<open>push\<close> is called: when \<open>push\<close> throws, the call is rejected
  and the array stays empty.
\<close>

definition loadRules :: "env \<Rightarrow> state \<Rightarrow> (js_error + addr) \<times> state" where
  "loadRules e s =
     (case createSheetsClient e of
        Inl err \<Rightarrow> (Inl err, s)
      | Inr _ \<Rightarrow>
          (case reply e of
             Rejected \<Rightarrow> (Inl RequestFailed, s)
           | Resolved values \<Rightarrow>
               (let rows = (case values of None \<Rightarrow> [] | Some v \<Rightarrow> v)
                in if length rows = 0
                   then (let (a, s') = alloc [] s
                         in (Inr a, s'\<lparr>rules_binding := a\<rparr>))
                   else (let headers = normalize_headers (rows ! 0);
                             dataRows = tl rows;
                             loaded = loadedRules headers dataRows;
                             s1 = array_write (rules_binding s) [] s
                         in if max_arguments e < length loaded then (Inl RangeError, s1)
                            else (let s2 = array_write (rules_binding s1)
                                             (elements s1 (rules_binding s1) @ loaded) s1
                                  in (Inr (rules_binding s2), s2))))))"

section \<open>ruleEngine.js\<close>

record query =
  usage :: jsval
  audience :: jsval
  density :: jsval
  tone :: jsval

definition matches :: "query \<Rightarrow> rule \<Rightarrow> bool" where
  "matches q r \<longleftrightarrow>
     strict_eq (get_prop r (utf16 ''usage'')) (usage q)
     \<and> strict_eq (get_prop r (utf16 ''audience'')) (audience q)
     \<and> strict_eq (get_prop r (utf16 ''density'')) (density q)
     \<and> strict_eq (get_prop r (utf16 ''tone'')) (tone q)"

text \<open>\<open>Number(rule.priority) === 100\<close>.\<close>

definition is_fallback :: "rule \<Rightarrow> bool" where
  "is_fallback r \<longleftrightarrow> priority_number r = Fin 100"

text \<open>\<open>Number(a.priority) || 0\<close>.\<close>

definition sort_priority :: "rule \<Rightarrow> jsnum" where
  "sort_priority r =
     (let n = priority_number r in if to_boolean (Num n) then n else Fin 0)"

text \<open>The comparator \<open>(a, b) => pb - pa\<close>.\<close>

definition compare_priority :: "rule \<Rightarrow> rule \<Rightarrow> jsnum" where
  "compare_priority a b = js_minus (sort_priority b) (sort_priority a)"

text \<open>
  \<open>Array.prototype.sort\<close> with a comparator: the sort is stable, and it places \<open>x\<close> after
  \<open>y\<close> only where the comparator's result for \<open>(x, y)\<close> is greater than zero (a NaN result
  counts as zero). For a consistent comparator that fixes the result, computed here by
  insertion from the right.
\<close>

definition positive :: "jsnum \<Rightarrow> bool" where
  "positive v \<longleftrightarrow> js_less (Fin 0) v"

fun insert_sorted :: "('a \<Rightarrow> 'a \<Rightarrow> jsnum) \<Rightarrow> 'a \<Rightarrow> 'a list \<Rightarrow> 'a list" where
  "insert_sorted cmp x [] = [x]"
| "insert_sorted cmp x (y # ys) =
     (if positive (cmp x y) then y # insert_sorted cmp x ys else x # y # ys)"

definition sorted_by :: "('a \<Rightarrow> 'a \<Rightarrow> jsnum) \<Rightarrow> 'a list \<Rightarrow> 'a list" where
  "sorted_by cmp xs = foldr (insert_sorted cmp) xs []"

text \<open>\<open>a.sort(cmp)\<close> sorts the array \<open>a\<close> in place.\<close>

definition array_sort :: "(rule \<Rightarrow> rule \<Rightarrow> jsnum) \<Rightarrow> addr \<Rightarrow> state \<Rightarrow> state" where
  "array_sort cmp a s = array_write a (sorted_by cmp (elements s a)) s"

text \<open>\<open>a[0]\<close>.\<close>

definition first :: "rule list \<Rightarrow> rule option" where
  "first xs = (case xs of [] \<Rightarrow> None | x # _ \<Rightarrow> Some x)"

text \<open>
  \<open>selectRule(input)\<close>: \<open>Inl\<close> is the thrown error, \<open>Inr None\<close> the returned \<open>null\<close>,
  \<open>Inr (Some r)\<close> the returned rule. A missing field of \<open>input\<close> is \<open>Undefined\<close> in the
  query; \<open>None\<close> is a missing (falsy) \<open>input\<close>. The guard \<open>Array.isArray(rules)\<close> is
  in \<open>elements\<close>: an address that holds no array reads as the empty list.
\<close>

definition selectRule :: "query option \<Rightarrow> state \<Rightarrow> (js_error + rule option) \<times> state" where
  "selectRule input s =
     (case input of
        None \<Rightarrow> (Inl InputRequired, s)
      | Some q \<Rightarrow>
          (let (c0, s0) = array_slice (engine_rules s) s;
               (c1, s1) = array_filter
                            (\<lambda>rule. strict_eq (get_prop rule (utf16 ''usage'')) (usage q)) c0 s0;
               (c2, s2) = array_filter
                            (\<lambda>rule. strict_eq (get_prop rule (utf16 ''audience'')) (audience q)) c1 s1;
               (c3, s3) = array_filter
                            (\<lambda>rule. strict_eq (get_prop rule (utf16 ''density'')) (density q)) c2 s2;
               (c4, s4) = array_filter
                            (\<lambda>rule. strict_eq (get_prop rule (utf16 ''tone'')) (tone q)) c3 s3
           in if length (elements s4 c4) = 0
              then (let (fallbackCandidates, s5) = array_filter is_fallback (engine_rules s4) s4
                    in if length (elements s5 fallbackCandidates) = 0 then (Inr None, s5)
                       else (Inr (first (elements s5 fallbackCandidates)), s5))
              else (let s5 = array_sort compare_priority c4 s4
                    in (Inr (first (elements s5 c4)), s5))))"

section \<open>server.js\<close>

text \<open>
  The handler of \<open>POST /tti/decide-font\<close>. The body is the parsed JSON object, \<open>None\<close>
  when there is none (\<open>req.body || {}\<close>); a field absent from it is \<open>Undefined\<close>.
\<close>

datatype response =
    Status400
  | Status404
  | Status500 js_error
  | Status200 jsval jsval jsval jsval

definition decide_font :: "query option \<Rightarrow> state \<Rightarrow> response \<times> state" where
  "decide_font body s =
     (let b = (case body of
                 None \<Rightarrow> \<lparr>usage = Undefined, audience = Undefined, density = Undefined,
                           tone = Undefined\<rparr>
               | Some q \<Rightarrow> q)
      in if \<not> to_boolean (usage b) \<or> \<not> to_boolean (audience b)
            \<or> \<not> to_boolean (density b) \<or> \<not> to_boolean (tone b)
         then (Status400, s)
         else (case selectRule
                      (Some \<lparr>usage = usage b, audience = audience b, density = density b,
                             tone = tone b\<rparr>) s of
                 (Inl err, s') \<Rightarrow> (Status500 err, s')
               | (Inr None, s') \<Rightarrow> (Status404, s')
               | (Inr (Some rule), s') \<Rightarrow>
                   (Status200 (get_prop rule (utf16 ''rule_id''))
                      (get_prop rule (utf16 ''font_style''))
                      (get_prop rule (utf16 ''weight''))
                      (get_prop rule (utf16 ''spacing'')), s')))"

text \<open>
  The callback of \<open>setInterval\<close> in \<open>start\<close>: a rejected reload is logged and otherwise
  ignored.
\<close>

definition scheduled_reload :: "env \<Rightarrow> state \<Rightarrow> state" where
  "scheduled_reload e s = snd (loadRules e s)"


section \<open>Runs of the program\<close>

text \<open>
  The states the program can be in: the modules are loaded, and then load cycles (at
  startup and on the timer), calls of \<open>selectRule\<close> and requests to the handler follow in
  any order.
\<close>

inductive reachable :: "state \<Rightarrow> bool" where
  reachable_init: "reachable init_state"
| reachable_load: "reachable s \<Longrightarrow> reachable (snd (loadRules e s))"
| reachable_select: "reachable s \<Longrightarrow> reachable (snd (selectRule i s))"
| reachable_decide: "reachable s \<Longrightarrow> reachable (snd (decide_font b s))"

text \<open>
  The properties of a rule that every load establishes: the field \<open>priority\<close> is absent
  or holds a finite double, and the field \<open>rule_id\<close> holds a non-empty string.
\<close>

definition finite_priority :: "rule \<Rightarrow> bool" where
  "finite_priority r =
     (case r (utf16 ''priority'') of
        None \<Rightarrow> True
      | Some (FNum (Fin x)) \<Rightarrow> on_grid x
      | _ \<Rightarrow> False)"

definition rule_ok :: "rule \<Rightarrow> bool" where
  "rule_ok r \<longleftrightarrow> (\<exists>v. r (utf16 ''rule_id'') = Some (FStr v) \<and> v \<noteq> []) \<and> finite_priority r"

section \<open>The claims, as the specification words them\<close>

text \<open>
  The priority of a rule as the data model of the specification has it: the number in
  the field \<open>priority\<close>, and \<open>0\<close> for a rule without that field. It is read off the rule
  itself, not through the conversions of \<open>selectRule\<close>.
\<close>

definition priority_value :: "rule \<Rightarrow> rat" where
  "priority_value r = (case r (utf16 ''priority'') of Some (FNum (Fin x)) \<Rightarrow> x | _ \<Rightarrow> 0)"

text \<open>\<open>Number.isInteger\<close>.\<close>

definition isInteger :: "jsnum \<Rightarrow> bool" where
  "isInteger n = (case n of Fin x \<Rightarrow> of_int \<lfloor>x\<rfloor> = x | _ \<Rightarrow> False)"

text \<open>
  Every cell of a row is found in the rule under the name of its column, for the header
  names as the parser has normalised them: the trimmed cell, and for the column
  \<open>priority\<close> the number it converts to. A column with an empty name is skipped.
\<close>

definition cells_under_header_names :: "jsstring list \<Rightarrow> jsstring list \<Rightarrow> rule \<Rightarrow> bool" where
  "cells_under_header_names headers row r =
     list_all
       (\<lambda>i. trim (headers ! i) = []
            \<or> r (trim (headers ! i)) = Some (stored row (trim (headers ! i)) i))
       [0..<length headers]"

section \<open>Example data\<close>

text \<open>The snapshot and the queries of the specification's example, used as test inputs.\<close>

definition rule_R1 :: rule where
  "rule_R1 =
     [utf16 ''rule_id'' \<mapsto> FStr (utf16 ''R1''), utf16 ''usage'' \<mapsto> FStr (utf16 ''print''),
      utf16 ''audience'' \<mapsto> FStr (utf16 ''teen''), utf16 ''density'' \<mapsto> FStr (utf16 ''high''),
      utf16 ''tone'' \<mapsto> FStr (utf16 ''friendly''), utf16 ''font_style'' \<mapsto> FStr (utf16 ''A''),
      utf16 ''priority'' \<mapsto> FNum (Fin 10)]"

definition rule_SYS :: rule where
  "rule_SYS =
     [utf16 ''rule_id'' \<mapsto> FStr (utf16 ''SYS''),
      utf16 ''font_style'' \<mapsto> FStr (utf16 ''Fallback''),
      utf16 ''priority'' \<mapsto> FNum (Fin 100)]"

definition rule_R0 :: rule where
  "rule_R0 = rule_R1(utf16 ''rule_id'' \<mapsto> FStr (utf16 ''R0''), utf16 ''priority'' \<mapsto> FNum (Fin 5))"

definition rule_R2 :: rule where
  "rule_R2 = rule_R1(utf16 ''rule_id'' \<mapsto> FStr (utf16 ''R2''), utf16 ''font_style'' \<mapsto> FStr (utf16 ''B''))"

definition rule_SYS2 :: rule where
  "rule_SYS2 = rule_SYS(utf16 ''rule_id'' \<mapsto> FStr (utf16 ''SYS2''))"

definition query_print :: query where
  "query_print = \<lparr>usage = Str (utf16 ''print''), audience = Str (utf16 ''teen''),
     density = Str (utf16 ''high''), tone = Str (utf16 ''friendly'')\<rparr>"

definition query_web :: query where
  "query_web = \<lparr>usage = Str (utf16 ''web''), audience = Str (utf16 ''adult''),
     density = Str (utf16 ''low''), tone = Str (utf16 ''formal'')\<rparr>"

text \<open>A state whose only array holds the given rules and is named by both bindings.\<close>

definition state_with :: "rule list \<Rightarrow> state" where
  "state_with rs = \<lparr>heap = [rs], rules_binding = 0, engine_rules = 0\<rparr>"

text \<open>
  Environments of a load cycle, on an engine that takes 125000 arguments in a call, and
  three sheets: one of five rows, one with a column named \<open>__proto__\<close>, and one of
  130000 data rows.
\<close>

definition env_no_credentials :: env where
  "env_no_credentials =
     \<lparr>credentials_json = None, json_parses = False, reply = Rejected, max_arguments = 125000\<rparr>"

definition env_with :: "sheets_reply \<Rightarrow> env" where
  "env_with r =
     \<lparr>credentials_json = Some (utf16 ''{}''), json_parses = True, reply = r,
      max_arguments = 125000\<rparr>"

definition sheet_rows :: "jsstring list list" where
  "sheet_rows =
     [[utf16 '' ID '', utf16 ''usage'', utf16 ''priority''],
      [utf16 ''R1'', utf16 ''print '', utf16 ''1.5''],
      [],
      [utf16 ''  '', utf16 ''web'', utf16 ''7''],
      [utf16 ''R2'', utf16 ''web'']]"

definition header_proto :: "jsstring list" where
  "header_proto = [utf16 ''rule_id'', utf16 ''__proto__'']"

definition row_proto :: "jsstring list" where
  "row_proto = [utf16 ''R1'', utf16 ''x'']"

definition large_sheet :: "jsstring list list" where
  "large_sheet = [utf16 ''rule_id''] # replicate 130000 [utf16 ''R1'']"

definition query_no_usage :: query where
  "query_no_usage = \<lparr>usage = Undefined, audience = Str (utf16 ''teen''),
     density = Str (utf16 ''high''), tone = Str (utf16 ''friendly'')\<rparr>"

section \<open>Properties of the numbers\<close>

lemma pow2_powi: "pow2 e = 2 powi e"
  by (simp add: pow2_def power_int_def inverse_eq_divide power_one_over)

lemma pow2_pos: "0 < pow2 e"
  by (simp add: pow2_powi)

lemma pow2_add: "pow2 (a + b) = pow2 a * pow2 b"
  by (simp add: pow2_powi power_int_add)

lemma pow2_mono: "a \<le> b \<Longrightarrow> pow2 a \<le> pow2 b"
  by (simp add: pow2_powi power_int_increasing)

lemma pow2_nat: "0 \<le> e \<Longrightarrow> pow2 e = 2 ^ nat e"
  by (simp add: pow2_def)

lemma pow2_cancel: "pow2 e * pow2 (- e) = 1"
  using pow2_add [of e "- e"] by (simp add: pow2_def)

lemma on_grid_iff: "on_grid x \<longleftrightarrow> (\<exists>k::int. x = of_int k * pow2 (- 1074))"
proof
  assume "on_grid x"
  then have "of_int \<lfloor>x * pow2 1074\<rfloor> = x * pow2 1074"
    unfolding on_grid_def .
  then have "x * pow2 1074 = of_int \<lfloor>x * pow2 1074\<rfloor>"
    by (rule sym)
  then have "x * (pow2 1074 * pow2 (- 1074)) = of_int \<lfloor>x * pow2 1074\<rfloor> * pow2 (- 1074)"
    by (simp only: mult.assoc [symmetric])
  then have "x = of_int \<lfloor>x * pow2 1074\<rfloor> * pow2 (- 1074)"
    by (simp only: pow2_cancel mult_1_right)
  then show "\<exists>k::int. x = of_int k * pow2 (- 1074)" ..
next
  assume "\<exists>k::int. x = of_int k * pow2 (- 1074)"
  then obtain k :: int where "x = of_int k * pow2 (- 1074)" ..
  then have "x * pow2 1074 = of_int k * (pow2 1074 * pow2 (- 1074))"
    by (simp only: mult.assoc mult.commute [of "pow2 1074"])
  then have "x * pow2 1074 = of_int k"
    by (simp only: pow2_cancel mult_1_right)
  then show "on_grid x"
    by (simp add: on_grid_def)
qed

lemma on_grid_diff: "on_grid a \<Longrightarrow> on_grid b \<Longrightarrow> on_grid (a - b)"
proof -
  assume "on_grid a" "on_grid b"
  then obtain k l :: int where "a = of_int k * pow2 (- 1074)" "b = of_int l * pow2 (- 1074)"
    by (auto simp add: on_grid_iff)
  then have "a - b = of_int (k - l) * pow2 (- 1074)"
    by (simp add: algebra_simps)
  then show ?thesis
    unfolding on_grid_iff ..
qed

lemma on_grid_pos_ge: "on_grid x \<Longrightarrow> 0 < x \<Longrightarrow> pow2 (- 1074) \<le> x"
proof -
  assume "on_grid x" "0 < x"
  then obtain k :: int where k: "x = of_int k * pow2 (- 1074)"
    by (auto simp add: on_grid_iff)
  with \<open>0 < x\<close> have "0 < (of_int k :: rat)"
    using pow2_pos [of "- 1074"] by (simp add: zero_less_mult_iff)
  then have "1 \<le> (of_int k :: rat)"
    by simp
  then have "1 * pow2 (- 1074) \<le> of_int k * pow2 (- 1074)"
    using pow2_pos [of "- 1074"] by (simp only: mult_le_cancel_right) simp
  with k show ?thesis by simp
qed

lemma flog2_le:
  assumes "0 < p" "0 < q"
  shows "pow2 (flog2 p q) \<le> of_int p / of_int q"
proof -
  define d where "d = bitlen p - bitlen q"
  define T where "T \<longleftrightarrow> (if 0 \<le> d then q * 2 ^ nat d \<le> p else q \<le> p * 2 ^ nat (- d))"
  have qpos: "0 < (of_int q :: rat)" using assms by simp
  have fl_eq: "flog2 p q = (if T then d else d - 1)"
    by (simp add: flog2_def Let_def d_def T_def)
  show ?thesis
  proof (cases T)
    case True
    then have fl: "flog2 p q = d"
      by (simp only: fl_eq if_True)
    show ?thesis
    proof (cases "0 \<le> d")
      case nonneg: True
      with True have "q * 2 ^ nat d \<le> p" by (simp add: T_def)
      then have "(of_int (q * 2 ^ nat d) :: rat) \<le> of_int p"
        by (simp only: of_int_le_iff)
      then have "(of_int q :: rat) * 2 ^ nat d \<le> of_int p"
        by simp
      with qpos have "(2 ^ nat d :: rat) \<le> of_int p / of_int q"
        by (simp add: field_simps)
      with nonneg show ?thesis
        by (simp add: fl pow2_def)
    next
      case neg: False
      with True have "q \<le> p * 2 ^ nat (- d)" by (simp add: T_def)
      then have "(of_int q :: rat) \<le> of_int (p * 2 ^ nat (- d))"
        by (simp only: of_int_le_iff)
      then have "(of_int q :: rat) \<le> of_int p * 2 ^ nat (- d)"
        by simp
      with qpos have "(1 / 2 ^ nat (- d) :: rat) \<le> of_int p / of_int q"
        by (simp add: field_simps)
      with neg show ?thesis
        by (simp add: fl pow2_def)
    qed
  next
    case False
    then have fl: "flog2 p q = d - 1"
      by (simp only: fl_eq if_False)
    from assms have bp: "2 ^ nat (bitlen p - 1) \<le> p" and bq: "q < 2 ^ nat (bitlen q)"
      using bitlen_bounds [of p] bitlen_bounds [of q] by simp_all
    have bp1: "1 \<le> bitlen p"
      using assms(1) bitlen_nonneg [of p] bitlen_eq_zero_iff [of p] by linarith
    have bq0: "0 \<le> bitlen q"
      by (rule bitlen_nonneg)
    from bp have "(of_int (2 ^ nat (bitlen p - 1)) :: rat) \<le> of_int p"
      by (simp only: of_int_le_iff)
    then have 1: "pow2 (bitlen p - 1) \<le> of_int p"
      using bp1 by (simp add: pow2_def)
    from bq have "(of_int q :: rat) < of_int (2 ^ nat (bitlen q))"
      by (simp only: of_int_less_iff)
    then have 2: "of_int q \<le> pow2 (bitlen q)"
      using bq0 by (simp add: pow2_def)
    have "pow2 (d - 1) * pow2 (bitlen q) = pow2 (bitlen p - 1)"
      by (simp add: d_def pow2_add [symmetric])
    then have "pow2 (d - 1) * of_int q \<le> pow2 (bitlen p - 1)"
      using 2 pow2_pos [of "d - 1"] by (metis mult_le_cancel_left_pos)
    with 1 have "pow2 (d - 1) * of_int q \<le> of_int p"
      by simp
    with qpos have "pow2 (d - 1) \<le> of_int p / of_int q"
      by (simp add: field_simps)
    then show ?thesis by (simp add: fl)
  qed
qed


lemma scale_value:
  assumes "0 < q" "scale k p q = (n, d)"
  shows "0 < d \<and> of_int n / of_int d = (of_int p / of_int q :: rat) * pow2 k"
proof (cases "0 \<le> k")
  case True
  with assms show ?thesis
    by (auto simp add: scale_def pow2_def)
next
  case False
  with assms show ?thesis
    by (auto simp add: scale_def pow2_def)
qed

lemma round_half_even_ge:
  assumes "0 < d" "d \<le> n"
  shows "1 \<le> round_half_even n d"
proof -
  from assms have "1 \<le> n div d"
    using pos_imp_zdiv_pos_iff [of d n] by linarith
  then show ?thesis
    by (simp add: round_half_even_def Let_def)
qed

lemma round_pos_shape:
  assumes "round_pos p q = Some r"
  obtains m e where "- 1022 \<le> e" "r = of_int m * pow2 (e - 52)"
    "m = round_half_even (fst (scale (52 - e) p q)) (snd (scale (52 - e) p q))"
    "e = max (flog2 p q) (- 1022)"
proof -
  define e where "e = max (flog2 p q) (- 1022)"
  define m where "m = round_half_even (fst (scale (52 - e) p q)) (snd (scale (52 - e) p q))"
  have "r = of_int m * pow2 (e - 52)"
    using assms by (simp add: round_pos_def Let_def case_prod_beta e_def m_def split: if_splits)
  moreover have "- 1022 \<le> e"
    by (simp add: e_def)
  ultimately show ?thesis
    using that m_def e_def by blast
qed

lemma round_pos_on_grid:
  assumes "round_pos p q = Some r"
  shows "on_grid r"
proof -
  from assms obtain m e where e: "- 1022 \<le> e" and r: "r = of_int m * pow2 (e - 52)"
    by (rule round_pos_shape)
  have "pow2 (e - 52) = pow2 (e + 1022) * pow2 (- 1074)"
    by (simp add: pow2_add [symmetric])
  moreover from e have "pow2 (e + 1022) = of_int (2 ^ nat (e + 1022))"
    by (simp add: pow2_def)
  ultimately have "r = of_int (m * 2 ^ nat (e + 1022)) * pow2 (- 1074)"
    using r by simp
  then show ?thesis
    unfolding on_grid_iff ..
qed

lemma round_pos_positive:
  assumes "0 < p" "0 < q" "pow2 (- 1074) \<le> of_int p / of_int q" "round_pos p q = Some r"
  shows "0 < r"
proof -
  from assms(4) obtain m e where e: "- 1022 \<le> e" and r: "r = of_int m * pow2 (e - 52)"
    and m: "m = round_half_even (fst (scale (52 - e) p q)) (snd (scale (52 - e) p q))"
    and e_def: "e = max (flog2 p q) (- 1022)"
    by (rule round_pos_shape)
  obtain n d where nd: "scale (52 - e) p q = (n, d)"
    by (cases "scale (52 - e) p q")
  with assms(2) have d: "0 < d" and v: "of_int n / of_int d = (of_int p / of_int q :: rat) * pow2 (52 - e)"
    using scale_value by blast+
  have "pow2 (e - 52) \<le> of_int p / of_int q"
  proof (cases "flog2 p q \<le> - 1022")
    case True
    then have "e = - 1022" by (simp add: e_def)
    with assms(3) show ?thesis by simp
  next
    case False
    then have "e = flog2 p q" by (simp add: e_def)
    moreover have "pow2 (e - 52) \<le> pow2 e"
      by (rule pow2_mono) simp
    ultimately show ?thesis
      using flog2_le [OF assms(1) assms(2)] by simp
  qed
  then have "pow2 (e - 52) * pow2 (52 - e) \<le> (of_int p / of_int q) * pow2 (52 - e)"
    using pow2_pos [of "52 - e"] by (simp only: mult_le_cancel_right) simp
  moreover have "pow2 (e - 52) * pow2 (52 - e) = 1"
    using pow2_cancel [of "e - 52"] by simp
  ultimately have "(1 :: rat) \<le> of_int n / of_int d"
    using v by simp
  with d have "(of_int d :: rat) \<le> of_int n"
    by (simp add: field_simps)
  then have "d \<le> n"
    by (simp only: of_int_le_iff)
  with d have "1 \<le> m"
    unfolding m nd fst_conv snd_conv by (rule round_half_even_ge)
  then have "0 < (of_int m :: rat)"
    by simp
  with r show ?thesis
    using pow2_pos [of "e - 52"] by simp
qed

lemma round_frac_is_double: "is_double (round_frac p q)"
  by (auto simp add: round_frac_def is_double_def on_grid_iff
      dest!: round_pos_on_grid split: option.split)
     (metis mult_minus_left of_int_minus)+

lemma round_double_is_double: "is_double (round_double x)"
  by (simp add: round_double_def round_frac_is_double split: prod.split)

lemma positive_round_frac:
  assumes "0 < q" "on_grid (of_int p / of_int q)"
  shows "positive (round_frac p q) \<longleftrightarrow> 0 < p"
proof -
  consider "p = 0" | "0 < p" | "p < 0" by linarith
  then show ?thesis
  proof cases
    case 1
    then show ?thesis by (simp add: round_frac_def positive_def)
  next
    case 2
    with assms have "0 < (of_int p / of_int q :: rat)" by simp
    with assms(2) have ge: "pow2 (- 1074) \<le> of_int p / of_int q"
      by (rule on_grid_pos_ge)
    show ?thesis
    proof (cases "round_pos p q")
      case None
      with 2 show ?thesis by (simp add: round_frac_def positive_def)
    next
      case (Some r)
      with 2 assms(1) ge have "0 < r" by (rule round_pos_positive)
      with 2 Some show ?thesis by (simp add: round_frac_def positive_def)
    qed
  next
    case 3
    then have "0 < - p" by simp
    from assms(2) have "on_grid (of_int (- p) / of_int q)"
      by (auto simp add: on_grid_iff) (metis mult_minus_left of_int_minus)
    moreover from 3 assms(1) have "0 < (of_int (- p) / of_int q :: rat)"
      by (intro divide_pos_pos) simp_all
    ultimately have ge: "pow2 (- 1074) \<le> of_int (- p) / of_int q"
      by (rule on_grid_pos_ge)
    show ?thesis
    proof (cases "round_pos (- p) q")
      case None
      with 3 show ?thesis by (simp add: round_frac_def positive_def)
    next
      case (Some r)
      with \<open>0 < - p\<close> assms(1) ge have "0 < r" by (rule round_pos_positive)
      with 3 Some show ?thesis by (simp add: round_frac_def positive_def)
    qed
  qed
qed

lemma positive_round_double:
  assumes "on_grid x"
  shows "positive (round_double x) \<longleftrightarrow> 0 < x"
proof -
  obtain p q where pq: "quotient_of x = (p, q)"
    by (cases "quotient_of x")
  then have q: "0 < q" and x: "x = of_int p / of_int q"
    by (simp_all add: quotient_of_denom_pos quotient_of_div)
  from assms have "positive (round_frac p q) \<longleftrightarrow> 0 < p"
    unfolding x by (rule positive_round_frac [OF q])
  moreover from q have "0 < x \<longleftrightarrow> 0 < p"
    by (simp add: x zero_less_divide_iff)
  ultimately show ?thesis
    by (simp add: round_double_def pq)
qed

lemma positive_js_minus:
  assumes "is_double a" "is_double b" "a \<noteq> NaN" "b \<noteq> NaN"
  shows "positive (js_minus b a) \<longleftrightarrow> js_less a b"
proof (cases a; cases b)
  fix x y
  assume ab: "a = Fin x" "b = Fin y"
  with assms have "on_grid (y - x)"
    by (simp add: is_double_def on_grid_diff)
  then have "positive (round_double (y - x)) \<longleftrightarrow> 0 < y - x"
    by (rule positive_round_double)
  with ab show ?thesis by simp
qed (use assms in \<open>simp_all add: positive_def\<close>)

lemma js_less_trans: "js_less a b \<Longrightarrow> js_less b c \<Longrightarrow> js_less a c"
  by (cases a; cases b; cases c) simp_all

lemma js_le_trans: "js_le a b \<Longrightarrow> js_le b c \<Longrightarrow> js_le a c"
  by (auto simp add: js_le_def dest: js_less_trans)

lemma js_less_imp_le: "js_less a b \<Longrightarrow> js_le a b"
  by (cases a; cases b) (simp_all add: js_le_def)

lemma not_js_less_imp_le: "a \<noteq> NaN \<Longrightarrow> b \<noteq> NaN \<Longrightarrow> \<not> js_less a b \<Longrightarrow> js_le b a"
  by (cases a; cases b) (auto simp add: js_le_def)

section \<open>Properties of the heap operations\<close>

lemma elements_appended:
  "elements (s\<lparr>heap := heap s @ ys\<rparr>) a =
     (if a < length (heap s) then elements s a
      else if a - length (heap s) < length ys then ys ! (a - length (heap s)) else [])"
  by (auto simp add: elements_def array_at_def nth_append)

lemma elements_dangling: "\<not> a < length (heap s) \<Longrightarrow> elements s a = []"
  by (simp add: elements_def array_at_def)

lemma first_Nil: "first [] = None"
  by (simp add: first_def)

lemmas heap_ops = array_slice_def array_filter_def alloc_def array_sort_def array_write_def

section \<open>What selectRule returns and what it leaves alone\<close>

text \<open>
  The result of \<open>selectRule\<close> as a function of the elements of the engine's array: the
  temporary arrays drop out.
\<close>

lemma selectRule_result:
  "fst (selectRule (Some q) s) =
     (if filter (matches q) (elements s (engine_rules s)) = []
      then Inr (first (filter is_fallback (elements s (engine_rules s))))
      else Inr (first (sorted_by compare_priority
                  (filter (matches q) (elements s (engine_rules s))))))"
proof (cases "engine_rules s < length (heap s)")
  case True
  then show ?thesis
    by (simp add: selectRule_def heap_ops elements_appended matches_def [abs_def] first_Nil
        list_update_append)
next
  case False
  then have "elements s (engine_rules s) = []"
    by (rule elements_dangling)
  then show ?thesis
    by (simp add: selectRule_def heap_ops elements_appended first_Nil nth_Cons'
        list_update_append)
qed

lemma selectRule_frame:
  "\<exists>ys. snd (selectRule i s) = s\<lparr>heap := heap s @ ys\<rparr>"
proof (cases i)
  case None
  have "s = s\<lparr>heap := heap s @ []\<rparr>" by simp
  then have "\<exists>ys. s = s\<lparr>heap := heap s @ ys\<rparr>" by (rule exI)
  then show ?thesis by (simp add: None selectRule_def)
next
  case (Some q)
  show ?thesis
    by (auto simp add: Some selectRule_def heap_ops elements_appended list_update_append)
qed

lemma selectRule_elements:
  "elements (snd (selectRule i s)) (engine_rules (snd (selectRule i s)))
     = elements s (engine_rules s)"
proof (cases i)
  case None
  then show ?thesis by (simp add: selectRule_def)
next
  case (Some q)
  show ?thesis
  proof (cases "engine_rules s < length (heap s)")
    case True
    then show ?thesis
      by (simp add: Some selectRule_def heap_ops elements_appended list_update_append)
  next
    case False
    then have "elements s (engine_rules s) = []"
      by (rule elements_dangling)
    then show ?thesis
      by (simp add: Some selectRule_def heap_ops elements_appended list_update_append
          nth_Cons' sorted_by_def)
  qed
qed

text \<open>
  Claim C8. Evaluating \<open>selectRule\<close> leaves the rules collection as it was: every array
  allocated before the call, the engine's array among them, holds the same rules in the
  same order afterwards, at the same address, and both bindings still name the arrays
  they named. The filters and the sort work on arrays allocated during the call. (Rule
  objects are values here: the program never writes to a rule after \<open>mapRowToRule\<close> has
  built it.)
\<close>

theorem selectRule_leaves_rules_unchanged:
  "take (length (heap s)) (heap (snd (selectRule i s))) = heap s
   \<and> rules_binding (snd (selectRule i s)) = rules_binding s
   \<and> engine_rules (snd (selectRule i s)) = engine_rules s
   \<and> elements (snd (selectRule i s)) (engine_rules (snd (selectRule i s)))
       = elements s (engine_rules s)"
proof -
  obtain ys where "snd (selectRule i s) = s\<lparr>heap := heap s @ ys\<rparr>"
    using selectRule_frame by blast
  then show ?thesis
    using selectRule_elements [of i s] by simp
qed


lemma utf16_eq_iff [simp]: "utf16 a = utf16 b \<longleftrightarrow> a = b"
  by (simp add: utf16_def inj_map_eq_map inj_of_char)

lemma utf16_eq_Nil [simp]: "utf16 s = [] \<longleftrightarrow> s = []"
  by (simp add: utf16_def)

lemma elements_state_with [simp]: "elements (state_with rs) (engine_rules (state_with rs)) = rs"
  by (simp add: state_with_def elements_def array_at_def)

lemma first_filter_None: "(\<forall>r \<in> set rs. \<not> P r) \<Longrightarrow> first (filter P rs) = None"
  by (induction rs) (auto simp add: first_def)

lemma first_filter_Some:
  "\<forall>y \<in> set pre. \<not> P y \<Longrightarrow> P r \<Longrightarrow> first (filter P (pre @ r # post)) = Some r"
  by (induction pre) (auto simp add: first_def)

lemmas rule_eval = matches_def get_prop_def is_fallback_def priority_number_def

section \<open>The stored priority\<close>

lemma on_grid_of_int: "on_grid (of_int k)"
proof -
  have "pow2 1074 = of_int (2 ^ 1074)"
    by (simp add: pow2_def)
  then have "of_int k * pow2 1074 = (of_int (k * 2 ^ 1074) :: rat)"
    by (simp only: of_int_mult)
  then show ?thesis
    by (simp only: on_grid_def floor_of_int)
qed

lemma on_grid_0: "on_grid 0"
  by (simp add: on_grid_def)

text \<open>
  \<open>selectRule\<close> reads the priority of a rule through \<open>Number(rule.priority)\<close>. For a rule
  whose field \<open>priority\<close> is absent or holds a finite double, as in every rule that a load
  builds, the number the comparator sorts by and the test for the fallback rule are
  those of the stored priority.
\<close>

lemma sort_priority_stored: "finite_priority r \<Longrightarrow> sort_priority r = Fin (priority_value r)"
  by (auto simp add: finite_priority_def priority_value_def sort_priority_def
      priority_number_def Let_def split: option.splits field.splits jsnum.splits)

lemma priority_is_double_stored: "finite_priority r \<Longrightarrow> priority_is_double r"
  by (auto simp add: finite_priority_def priority_is_double_def is_double_def
      split: option.splits field.splits jsnum.splits)

lemma is_fallback_stored: "finite_priority r \<Longrightarrow> is_fallback r \<longleftrightarrow> priority_value r = 100"
  by (auto simp add: finite_priority_def priority_value_def is_fallback_def
      priority_number_def split: option.splits field.splits jsnum.splits)

lemma example_finite_priority:
  "finite_priority rule_R0" "finite_priority rule_R1" "finite_priority rule_R2"
  "finite_priority rule_SYS" "finite_priority rule_SYS2"
  using on_grid_of_int [of 5] on_grid_of_int [of 10] on_grid_of_int [of 100]
  by (simp_all add: finite_priority_def rule_R0_def rule_R1_def rule_R2_def rule_SYS_def
      rule_SYS2_def)

lemma example_priority_value:
  "priority_value rule_R0 = 5" "priority_value rule_R1 = 10" "priority_value rule_R2 = 10"
  "priority_value rule_SYS = 100" "priority_value rule_SYS2 = 100"
  by (simp_all add: priority_value_def rule_R0_def rule_R1_def rule_R2_def rule_SYS_def
      rule_SYS2_def)

lemma example_rules_distinct: "rule_R1 \<noteq> rule_R2" "rule_SYS \<noteq> rule_SYS2"
proof -
  have "rule_R1 (utf16 ''rule_id'') \<noteq> rule_R2 (utf16 ''rule_id'')"
    by (simp add: rule_R1_def rule_R2_def)
  then show "rule_R1 \<noteq> rule_R2" by auto
  have "rule_SYS (utf16 ''rule_id'') \<noteq> rule_SYS2 (utf16 ''rule_id'')"
    by (simp add: rule_SYS_def rule_SYS2_def)
  then show "rule_SYS \<noteq> rule_SYS2" by auto
qed

text \<open>The positions of an element in a list of three or four.\<close>

lemma split_list3:
  assumes "[a, b, c] = pre @ r # post"
  obtains "pre = []" "r = a" "post = [b, c]"
  | "pre = [a]" "r = b" "post = [c]"
  | "pre = [a, b]" "r = c" "post = []"
  using assms by (auto simp add: Cons_eq_append_conv)

lemma split_list4:
  assumes "[a, b, c, d] = pre @ r # post"
  obtains "pre = []" "r = a" "post = [b, c, d]"
  | "pre = [a]" "r = b" "post = [c, d]"
  | "pre = [a, b]" "r = c" "post = [d]"
  | "pre = [a, b, c]" "r = d" "post = []"
  using assms by (auto simp add: Cons_eq_append_conv)

section \<open>The fallback rule and the no-match result\<close>

text \<open>
  Claim C7. When no rule of the engine's array matches the four attributes of the query
  and no rule there has a priority equal to \<open>100\<close>, \<open>selectRule\<close> returns \<open>null\<close>: a
  normal return value (\<open>Inr\<close>), not a thrown error (\<open>Inl\<close>).
\<close>

theorem no_match_no_fallback_returns_null:
  assumes "filter (matches q) (elements s (engine_rules s)) = []"
    and "\<forall>r \<in> set (elements s (engine_rules s)). \<not> is_fallback r"
  shows "fst (selectRule (Some q) s) = Inr None"
  using assms by (simp add: selectRule_result first_filter_None first_Nil)

theorem no_match_no_fallback_returns_null_witness:
  "filter (matches query_web)
     (elements (state_with [rule_R1]) (engine_rules (state_with [rule_R1]))) = []
   \<and> list_all (\<lambda>r. \<not> is_fallback r)
         (elements (state_with [rule_R1]) (engine_rules (state_with [rule_R1])))
   \<and> fst (selectRule (Some query_web) (state_with [rule_R1])) = Inr None"
proof -
  let ?s = "state_with [rule_R1]"
  have h1: "filter (matches query_web) (elements ?s (engine_rules ?s)) = []"
    by (simp add: rule_eval rule_R1_def query_web_def)
  have h2: "\<forall>r \<in> set (elements ?s (engine_rules ?s)). \<not> is_fallback r"
    by (simp add: rule_eval rule_R1_def)
  then have h2': "list_all (\<lambda>r. \<not> is_fallback r) (elements ?s (engine_rules ?s))"
    by (simp only: list_all_iff)
  from no_match_no_fallback_returns_null [OF h1 h2] h1 h2' show ?thesis
    by (intro conjI)
qed

text \<open>
  Claim C2. When no rule of the engine's array matches the query and some rule there has
  the priority \<open>100\<close>, \<open>selectRule\<close> returns the first rule of priority \<open>100\<close> in the order
  of the array: every rule before it has another priority. The priority is the number
  stored in the rule. Nothing is asked of the usage, audience, density or tone of the
  returned rule. The rules of the array have a finite double or nothing in the field
  \<open>priority\<close>, which holds for every array that a load has filled.
\<close>

theorem no_match_returns_first_fallback:
  assumes "filter (matches q) (elements s (engine_rules s)) = []"
    and "\<forall>r \<in> set (elements s (engine_rules s)). finite_priority r"
    and "\<exists>r \<in> set (elements s (engine_rules s)). priority_value r = 100"
  shows "\<exists>pre r post. elements s (engine_rules s) = pre @ r # post
           \<and> priority_value r = 100 \<and> (\<forall>y \<in> set pre. priority_value y \<noteq> 100)
           \<and> fst (selectRule (Some q) s) = Inr (Some r)"
proof -
  from assms(3) obtain pre r post
    where d: "elements s (engine_rules s) = pre @ r # post" "priority_value r = 100"
      "\<forall>y \<in> set pre. \<not> priority_value y = 100"
    by (rule split_list_first_propE)
  from assms(2) d(1) have fp: "finite_priority r" "\<forall>y \<in> set pre. finite_priority y"
    by simp_all
  from fp(2) d(3) have "\<forall>y \<in> set pre. \<not> is_fallback y"
    by (simp add: is_fallback_stored)
  moreover from fp(1) d(2) have "is_fallback r"
    by (simp add: is_fallback_stored)
  ultimately have "first (filter is_fallback (pre @ r # post)) = Some r"
    by (rule first_filter_Some)
  with assms(1) d(1) have "fst (selectRule (Some q) s) = Inr (Some r)"
    by (simp add: selectRule_result)
  with d show ?thesis
    by (intro exI [of _ pre] exI [of _ r] exI [of _ post] conjI)
qed

theorem no_match_returns_first_fallback_witness:
  "filter (matches query_web)
     (elements (state_with [rule_R1, rule_SYS, rule_SYS2])
        (engine_rules (state_with [rule_R1, rule_SYS, rule_SYS2]))) = []
   \<and> list_all finite_priority
        (elements (state_with [rule_R1, rule_SYS, rule_SYS2])
           (engine_rules (state_with [rule_R1, rule_SYS, rule_SYS2])))
   \<and> priority_value rule_R1 = 10
   \<and> priority_value rule_SYS = 100
   \<and> priority_value rule_SYS2 = 100
   \<and> rule_SYS \<noteq> rule_SYS2
   \<and> fst (selectRule (Some query_web) (state_with [rule_R1, rule_SYS, rule_SYS2]))
       = Inr (Some rule_SYS)"
proof -
  let ?s = "state_with [rule_R1, rule_SYS, rule_SYS2]"
  have h1: "filter (matches query_web) (elements ?s (engine_rules ?s)) = []"
    by (simp add: rule_eval rule_R1_def rule_SYS_def rule_SYS2_def query_web_def)
  have h2': "list_all finite_priority (elements ?s (engine_rules ?s))"
    by (simp add: example_finite_priority)
  then have h2: "\<forall>r \<in> set (elements ?s (engine_rules ?s)). finite_priority r"
    by (simp only: list_all_iff)
  have h3: "\<exists>r \<in> set (elements ?s (engine_rules ?s)). priority_value r = 100"
    by (simp add: example_priority_value)
  from no_match_returns_first_fallback [OF h1 h2 h3] obtain pre r post
    where d: "[rule_R1, rule_SYS, rule_SYS2] = pre @ r # post"
      and p: "priority_value r = 100"
      and b: "\<forall>y \<in> set pre. priority_value y \<noteq> 100"
      and res: "fst (selectRule (Some query_web) ?s) = Inr (Some r)"
    unfolding elements_state_with by (elim exE conjE)
  from d have "r = rule_SYS"
  proof (cases rule: split_list3)
    case 1
    with p show ?thesis by (simp add: example_priority_value)
  next
    case 2
    then show ?thesis by simp
  next
    case 3
    with b show ?thesis by (simp add: example_priority_value)
  qed
  with res have "fst (selectRule (Some query_web) ?s) = Inr (Some rule_SYS)"
    by simp
  with h1 h2' example_priority_value(2,4,5) example_rules_distinct(2) show ?thesis
    by (intro conjI)
qed


section \<open>The matching rule of highest priority\<close>

lemma string_to_number_is_double: "is_double (string_to_number s)"
proof -
  have z: "is_double (Fin 0)" "is_double NaN" "is_double PosInf" "is_double NegInf"
    by (simp_all add: is_double_def on_grid_0)
  show ?thesis
    by (simp add: string_to_number_def signed_decimal_def Let_def round_frac_is_double z
        split: option.split prod.split list.split)
qed

lemma sort_priority_not_NaN: "sort_priority r \<noteq> NaN"
  by (simp add: sort_priority_def Let_def)

lemma priority_number_is_double: "priority_is_double r \<Longrightarrow> is_double (priority_number r)"
  by (simp add: priority_is_double_def priority_number_def string_to_number_is_double
      is_double_def [of NaN] split: option.splits field.splits)

lemma sort_priority_is_double: "priority_is_double r \<Longrightarrow> is_double (sort_priority r)"
  by (simp add: sort_priority_def Let_def priority_number_is_double is_double_def [of "Fin 0"]
      on_grid_0)

lemma filter_eq_append_ConsD:
  "filter P xs = pre @ h # post \<Longrightarrow>
     \<exists>us vs. xs = us @ h # vs \<and> P h \<and> filter P us = pre \<and> filter P vs = post"
proof (induction xs arbitrary: pre)
  case Nil
  then show ?case by simp
next
  case (Cons x xs)
  show ?case
  proof (cases "P x")
    case False
    with Cons.prems have "filter P xs = pre @ h # post" by simp
    then obtain us vs where "xs = us @ h # vs" "P h" "filter P us = pre" "filter P vs = post"
      using Cons.IH by blast
    with False have "x # xs = (x # us) @ h # vs \<and> P h \<and> filter P (x # us) = pre
        \<and> filter P vs = post"
      by simp
    then show ?thesis by blast
  next
    case True
    show ?thesis
    proof (cases pre)
      case Nil
      with True Cons.prems have "x # xs = [] @ h # xs \<and> P h \<and> filter P [] = pre
          \<and> filter P xs = post"
        by simp
      then show ?thesis by blast
    next
      case (Cons p pre')
      with True Cons.prems have px: "p = x" and "filter P xs = pre' @ h # post"
        by simp_all
      then obtain us vs where "xs = us @ h # vs" "P h" "filter P us = pre'" "filter P vs = post"
        using Cons.IH by blast
      with True px Cons have "x # xs = (x # us) @ h # vs \<and> P h \<and> filter P (x # us) = pre
          \<and> filter P vs = post"
        by simp
      then show ?thesis by blast
    qed
  qed
qed

lemma positive_compare_priority:
  assumes "priority_is_double a" "priority_is_double b"
  shows "positive (compare_priority a b) \<longleftrightarrow> js_less (sort_priority a) (sort_priority b)"
  unfolding compare_priority_def
  using assms by (intro positive_js_minus sort_priority_is_double sort_priority_not_NaN)

lemma first_insert_sorted:
  "first (insert_sorted cmp x ys) =
     (case first ys of None \<Rightarrow> Some x | Some y \<Rightarrow> if positive (cmp x y) then Some y else Some x)"
  by (cases ys) (simp_all add: first_def)

lemma sorted_by_Cons: "sorted_by cmp (x # xs) = insert_sorted cmp x (sorted_by cmp xs)"
  by (simp add: sorted_by_def)

lemma first_sorted_by:
  assumes "\<forall>r \<in> set xs. priority_is_double r" "xs \<noteq> []"
  shows "\<exists>pre h post. xs = pre @ h # post
           \<and> first (sorted_by compare_priority xs) = Some h
           \<and> (\<forall>y \<in> set pre. js_less (sort_priority y) (sort_priority h))
           \<and> (\<forall>y \<in> set post. js_le (sort_priority y) (sort_priority h))"
  using assms
proof (induction xs)
  case Nil
  then show ?case by simp
next
  case (Cons x xs)
  show ?case
  proof (cases "xs = []")
    case True
    have "x # xs = [] @ x # []" using True by simp
    moreover have "first (sorted_by compare_priority (x # xs)) = Some x"
      using True by (simp add: sorted_by_def first_def)
    ultimately show ?thesis by fastforce
  next
    case False
    with Cons obtain pre h post where xs: "xs = pre @ h # post"
      and h: "first (sorted_by compare_priority xs) = Some h"
      and lt: "\<forall>y \<in> set pre. js_less (sort_priority y) (sort_priority h)"
      and le: "\<forall>y \<in> set post. js_le (sort_priority y) (sort_priority h)"
      by auto
    from Cons.prems xs have ok: "priority_is_double x" "priority_is_double h"
      by simp_all
    show ?thesis
    proof (cases "js_less (sort_priority x) (sort_priority h)")
      case True
      then have "first (sorted_by compare_priority (x # xs)) = Some h"
        using ok h by (simp add: sorted_by_Cons first_insert_sorted positive_compare_priority)
      moreover have "x # xs = (x # pre) @ h # post"
        using xs by simp
      moreover have "\<forall>y \<in> set (x # pre). js_less (sort_priority y) (sort_priority h)"
        using True lt by simp
      ultimately show ?thesis using le by blast
    next
      case False
      then have f: "first (sorted_by compare_priority (x # xs)) = Some x"
        using ok h by (simp add: sorted_by_Cons first_insert_sorted positive_compare_priority)
      from False have hx: "js_le (sort_priority h) (sort_priority x)"
        by (intro not_js_less_imp_le sort_priority_not_NaN)
      have "\<forall>y \<in> set xs. js_le (sort_priority y) (sort_priority x)"
      proof
        fix y assume "y \<in> set xs"
        then consider "y \<in> set pre" | "y = h" | "y \<in> set post"
          using xs by auto
        then show "js_le (sort_priority y) (sort_priority x)"
        proof cases
          case 1
          with lt have "js_le (sort_priority y) (sort_priority h)"
            by (simp add: js_less_imp_le)
          then show ?thesis using hx by (rule js_le_trans)
        next
          case 2
          then show ?thesis using hx by simp
        next
          case 3
          with le have "js_le (sort_priority y) (sort_priority h)" by simp
          then show ?thesis using hx by (rule js_le_trans)
        qed
      qed
      moreover have "x # xs = [] @ x # xs" by simp
      ultimately show ?thesis using f by fastforce
    qed
  qed
qed

text \<open>
  The first element of the sorted candidates, by the number the comparator reads: every
  matching rule before it in the array has a strictly lower one, every matching rule
  after it a lower or equal one.
\<close>

lemma selectRule_first_by_sort_priority:
  assumes "filter (matches q) (elements s (engine_rules s)) \<noteq> []"
    and "\<forall>r \<in> set (elements s (engine_rules s)). matches q r \<longrightarrow> priority_is_double r"
  shows "\<exists>pre r post. elements s (engine_rules s) = pre @ r # post
           \<and> fst (selectRule (Some q) s) = Inr (Some r)
           \<and> matches q r
           \<and> (\<forall>y \<in> set pre. matches q y \<longrightarrow> js_less (sort_priority y) (sort_priority r))
           \<and> (\<forall>y \<in> set post. matches q y \<longrightarrow> js_le (sort_priority y) (sort_priority r))"
proof -
  define rs where "rs = elements s (engine_rules s)"
  define cs where "cs = filter (matches q) rs"
  from assms(2) have ok: "\<forall>r \<in> set cs. priority_is_double r"
    by (simp add: cs_def rs_def)
  from assms(1) have ne: "cs \<noteq> []"
    by (simp add: cs_def rs_def)
  from first_sorted_by [OF ok ne] obtain pre h post where cs: "cs = pre @ h # post"
    and h: "first (sorted_by compare_priority cs) = Some h"
    and lt: "\<forall>y \<in> set pre. js_less (sort_priority y) (sort_priority h)"
    and le: "\<forall>y \<in> set post. js_le (sort_priority y) (sort_priority h)"
    by (elim exE conjE)
  from cs have "filter (matches q) rs = pre @ h # post"
    by (simp add: cs_def)
  from filter_eq_append_ConsD [OF this] obtain us vs where rs: "rs = us @ h # vs"
    and mh: "matches q h"
    and us: "filter (matches q) us = pre" and vs: "filter (matches q) vs = post"
    by (elim exE conjE)
  have res: "fst (selectRule (Some q) s) = Inr (Some h)"
    using ne h by (simp add: selectRule_result cs_def rs_def)
  have before: "\<forall>y \<in> set us. matches q y \<longrightarrow> js_less (sort_priority y) (sort_priority h)"
  proof (intro ballI impI)
    fix y assume "y \<in> set us" "matches q y"
    then have "y \<in> set pre" by (simp add: us [symmetric])
    with lt show "js_less (sort_priority y) (sort_priority h)" by simp
  qed
  have after: "\<forall>y \<in> set vs. matches q y \<longrightarrow> js_le (sort_priority y) (sort_priority h)"
  proof (intro ballI impI)
    fix y assume "y \<in> set vs" "matches q y"
    then have "y \<in> set post" by (simp add: vs [symmetric])
    with le show "js_le (sort_priority y) (sort_priority h)" by simp
  qed
  from rs res mh before after show ?thesis
    unfolding rs_def by (intro exI [of _ us] exI [of _ h] exI [of _ vs] conjI)
qed

text \<open>
  Claim C1. When at least one rule of the engine's array matches the four attributes of
  the query, \<open>selectRule\<close> returns a matching rule \<open>r\<close> at a position of the array such
  that every matching rule before it has a strictly lower priority and every matching
  rule after it has a priority lower than or equal to that of \<open>r\<close>: the returned rule has
  the highest priority among the matching rules and is the earliest of those that have
  it. The priority is the number stored in the rule, \<open>0\<close> for a rule without one. The
  matching rules have a finite double or nothing in the field \<open>priority\<close>, which holds
  for every array that a load has filled.
\<close>

theorem match_returns_first_of_highest_priority:
  assumes "filter (matches q) (elements s (engine_rules s)) \<noteq> []"
    and "\<forall>r \<in> set (elements s (engine_rules s)). matches q r \<longrightarrow> finite_priority r"
  shows "\<exists>pre r post. elements s (engine_rules s) = pre @ r # post
           \<and> fst (selectRule (Some q) s) = Inr (Some r)
           \<and> matches q r
           \<and> (\<forall>y \<in> set pre. matches q y \<longrightarrow> priority_value y < priority_value r)
           \<and> (\<forall>y \<in> set post. matches q y \<longrightarrow> priority_value y \<le> priority_value r)"
proof -
  from assms(2) have "\<forall>r \<in> set (elements s (engine_rules s)).
      matches q r \<longrightarrow> priority_is_double r"
    by (simp add: priority_is_double_stored)
  from selectRule_first_by_sort_priority [OF assms(1) this] obtain pre r post
    where d: "elements s (engine_rules s) = pre @ r # post"
      and res: "fst (selectRule (Some q) s) = Inr (Some r)"
      and m: "matches q r"
      and lt: "\<forall>y \<in> set pre. matches q y \<longrightarrow> js_less (sort_priority y) (sort_priority r)"
      and le: "\<forall>y \<in> set post. matches q y \<longrightarrow> js_le (sort_priority y) (sort_priority r)"
    by (elim exE conjE)
  from assms(2) d m have r: "sort_priority r = Fin (priority_value r)"
    by (simp add: sort_priority_stored)
  have before: "\<forall>y \<in> set pre. matches q y \<longrightarrow> priority_value y < priority_value r"
  proof (intro ballI impI)
    fix y assume y: "y \<in> set pre" "matches q y"
    with assms(2) d have "sort_priority y = Fin (priority_value y)"
      by (simp add: sort_priority_stored)
    moreover from lt y have "js_less (sort_priority y) (sort_priority r)"
      by blast
    ultimately show "priority_value y < priority_value r"
      using r by simp
  qed
  have after: "\<forall>y \<in> set post. matches q y \<longrightarrow> priority_value y \<le> priority_value r"
  proof (intro ballI impI)
    fix y assume y: "y \<in> set post" "matches q y"
    with assms(2) d have "sort_priority y = Fin (priority_value y)"
      by (simp add: sort_priority_stored)
    moreover from le y have "js_le (sort_priority y) (sort_priority r)"
      by blast
    ultimately show "priority_value y \<le> priority_value r"
      using r by (auto simp add: js_le_def)
  qed
  from d res m before after show ?thesis
    by (intro exI [of _ pre] exI [of _ r] exI [of _ post] conjI)
qed

theorem match_returns_first_of_highest_priority_witness:
  "filter (matches query_print)
     (elements (state_with [rule_R0, rule_SYS, rule_R1, rule_R2])
        (engine_rules (state_with [rule_R0, rule_SYS, rule_R1, rule_R2]))) \<noteq> []
   \<and> list_all finite_priority
         (elements (state_with [rule_R0, rule_SYS, rule_R1, rule_R2])
            (engine_rules (state_with [rule_R0, rule_SYS, rule_R1, rule_R2])))
   \<and> matches query_print rule_R0
   \<and> \<not> matches query_print rule_SYS
   \<and> matches query_print rule_R1
   \<and> matches query_print rule_R2
   \<and> priority_value rule_R0 = 5
   \<and> priority_value rule_R1 = 10
   \<and> priority_value rule_R2 = 10
   \<and> rule_R1 \<noteq> rule_R2
   \<and> fst (selectRule (Some query_print) (state_with [rule_R0, rule_SYS, rule_R1, rule_R2]))
       = Inr (Some rule_R1)"
proof -
  let ?s = "state_with [rule_R0, rule_SYS, rule_R1, rule_R2]"
  have m: "matches query_print rule_R0" "\<not> matches query_print rule_SYS"
    "matches query_print rule_R1" "matches query_print rule_R2"
    by (simp_all add: rule_eval rule_R0_def rule_R1_def rule_R2_def rule_SYS_def
        query_print_def)
  have h1: "filter (matches query_print) (elements ?s (engine_rules ?s)) \<noteq> []"
    by (simp add: m)
  have h2': "list_all finite_priority (elements ?s (engine_rules ?s))"
    by (simp add: example_finite_priority)
  then have h2: "\<forall>r \<in> set (elements ?s (engine_rules ?s)).
              matches query_print r \<longrightarrow> finite_priority r"
    by (simp only: list_all_iff) blast
  from match_returns_first_of_highest_priority [OF h1 h2] obtain pre r post
    where d: "[rule_R0, rule_SYS, rule_R1, rule_R2] = pre @ r # post"
      and res: "fst (selectRule (Some query_print) ?s) = Inr (Some r)"
      and mr: "matches query_print r"
      and lt: "\<forall>y \<in> set pre. matches query_print y \<longrightarrow> priority_value y < priority_value r"
      and le: "\<forall>y \<in> set post. matches query_print y \<longrightarrow> priority_value y \<le> priority_value r"
    unfolding elements_state_with by (elim exE conjE)
  from d have "r = rule_R1"
  proof (cases rule: split_list4)
    case 1
    with le m show ?thesis by (simp add: example_priority_value)
  next
    case 2
    with mr m show ?thesis by simp
  next
    case 3
    then show ?thesis by simp
  next
    case 4
    with lt m show ?thesis by (simp add: example_priority_value)
  qed
  with res have "fst (selectRule (Some query_print) ?s) = Inr (Some rule_R1)"
    by simp
  with h1 h2' m example_priority_value(1,2,3) example_rules_distinct(1) show ?thesis
    by (intro conjI)
qed

section \<open>mapRowToRule, column by column\<close>

lemma map_column_other: "trim (fst hi) \<noteq> k \<Longrightarrow> map_column row r hi k = r k"
  by (cases hi) (auto simp add: map_column_def assign_def Let_def)

lemma map_column_key:
  "trim h \<noteq> [] \<Longrightarrow> trim h \<noteq> utf16 ''__proto__'' \<Longrightarrow>
     map_column row r (h, i) (trim h) = Some (stored row (trim h) i)"
  by (simp add: map_column_def assign_def Let_def stored_def)

lemma foldl_map_column_other:
  "\<forall>hi \<in> set his. trim (fst hi) \<noteq> k \<Longrightarrow> foldl (map_column row) r his k = r k"
  by (induction his arbitrary: r) (simp_all add: map_column_other)

lemma foldl_map_column_last:
  assumes "trim h \<noteq> []" "trim h \<noteq> utf16 ''__proto__''"
    and "\<forall>hi \<in> set post. trim (fst hi) \<noteq> trim h"
  shows "foldl (map_column row) r (pre @ (h, i) # post) (trim h) = Some (stored row (trim h) i)"
  using assms by (simp add: foldl_map_column_other map_column_key)

lemma zip_upt_split:
  assumes "i < length hs"
  shows "zip hs [0..<length hs] =
           take i (zip hs [0..<length hs]) @ (hs ! i, i) # drop (Suc i) (zip hs [0..<length hs])"
proof -
  from assms have "i < length (zip hs [0..<length hs])" by simp
  then have "zip hs [0..<length hs] =
      take i (zip hs [0..<length hs]) @ zip hs [0..<length hs] ! i
        # drop (Suc i) (zip hs [0..<length hs])"
    by (rule id_take_nth_drop)
  with assms show ?thesis by simp
qed

lemma in_drop_zip_upt:
  assumes "hi \<in> set (drop n (zip hs [0..<length hs]))"
  shows "\<exists>j. n \<le> j \<and> j < length hs \<and> hi = (hs ! j, j)"
proof -
  from assms obtain m where m: "m < length (drop n (zip hs [0..<length hs]))"
    and hi: "drop n (zip hs [0..<length hs]) ! m = hi"
    by (auto simp add: in_set_conv_nth)
  from m have "n + m < length hs" by simp
  with hi have "hi = (hs ! (n + m), n + m)" by (simp add: add.commute)
  with \<open>n + m < length hs\<close> show ?thesis by (intro exI [of _ "n + m"]) simp
qed

lemma in_zip_upt:
  assumes "hi \<in> set (zip hs [0..<length hs])"
  shows "\<exists>j. j < length hs \<and> hi = (hs ! j, j)"
  using in_drop_zip_upt [of hi 0 hs] assms by simp

lemma mapRowToRule_column:
  assumes "i < length headers" "trim (headers ! i) \<noteq> []"
    and "trim (headers ! i) \<noteq> utf16 ''__proto__''"
    and "\<forall>j. i < j \<and> j < length headers \<longrightarrow> trim (headers ! j) \<noteq> trim (headers ! i)"
  shows "mapRowToRule headers row (trim (headers ! i)) = Some (stored row (trim (headers ! i)) i)"
proof -
  have "\<forall>hi \<in> set (drop (Suc i) (zip headers [0..<length headers])).
          trim (fst hi) \<noteq> trim (headers ! i)"
  proof
    fix hi assume "hi \<in> set (drop (Suc i) (zip headers [0..<length headers]))"
    then obtain j where "Suc i \<le> j" "j < length headers" "hi = (headers ! j, j)"
      using in_drop_zip_upt by blast
    with assms(4) show "trim (fst hi) \<noteq> trim (headers ! i)" by simp
  qed
  with assms(2,3) have "foldl (map_column row) Map.empty
      (take i (zip headers [0..<length headers]) @ (headers ! i, i)
         # drop (Suc i) (zip headers [0..<length headers])) (trim (headers ! i))
      = Some (stored row (trim (headers ! i)) i)"
    by (rule foldl_map_column_last)
  then show ?thesis
    unfolding mapRowToRule_def using zip_upt_split [OF assms(1)] by simp
qed

lemma mapRowToRule_absent:
  assumes "\<forall>j < length headers. trim (headers ! j) \<noteq> k"
  shows "mapRowToRule headers row k = None"
proof -
  have "\<forall>hi \<in> set (zip headers [0..<length headers]). trim (fst hi) \<noteq> k"
  proof
    fix hi assume "hi \<in> set (zip headers [0..<length headers])"
    then obtain j where "j < length headers" "hi = (headers ! j, j)"
      using in_zip_upt by blast
    with assms show "trim (fst hi) \<noteq> k" by simp
  qed
  then show ?thesis
    by (simp add: mapRowToRule_def foldl_map_column_other)
qed

lemma map_column_FNum:
  "k \<noteq> utf16 ''priority'' \<Longrightarrow> map_column row r hi k = Some (FNum n) \<Longrightarrow> r k = Some (FNum n)"
  by (cases hi) (auto simp add: map_column_def assign_def Let_def split: if_splits)

lemma foldl_map_column_FNum:
  "k \<noteq> utf16 ''priority'' \<Longrightarrow> foldl (map_column row) r his k = Some (FNum n) \<Longrightarrow>
     r k = Some (FNum n)"
  by (induction his arbitrary: r) (auto dest: map_column_FNum)

lemma has_rule_id_mapRowToRule:
  assumes "has_rule_id (mapRowToRule headers row)"
  shows "\<exists>v. mapRowToRule headers row (utf16 ''rule_id'') = Some (FStr v) \<and> v \<noteq> []"
proof (cases "mapRowToRule headers row (utf16 ''rule_id'')")
  case None
  with assms show ?thesis by (simp add: has_rule_id_def get_prop_def)
next
  case (Some f)
  show ?thesis
  proof (cases f)
    case (FStr v)
    with Some assms show ?thesis by (simp add: has_rule_id_def get_prop_def)
  next
    case (FNum n)
    with Some have "foldl (map_column row) Map.empty (zip headers [0..<length headers])
        (utf16 ''rule_id'') = Some (FNum n)"
      by (simp add: mapRowToRule_def)
    then have "Map.empty (utf16 ''rule_id'') = Some (FNum n)"
      by (rule foldl_map_column_FNum [rotated]) simp
    then show ?thesis by simp
  qed
qed

lemma map_column_priority_is_double:
  "priority_is_double r \<Longrightarrow> priority_is_double (map_column row r hi)"
  by (cases hi)
     (auto simp add: map_column_def assign_def Let_def priority_is_double_def
        string_to_number_is_double is_double_def [of "Fin 0"] on_grid_0
        split: option.splits field.splits)

lemma priority_is_double_mapRowToRule: "priority_is_double (mapRowToRule headers row)"
proof -
  have "priority_is_double r \<Longrightarrow> priority_is_double (foldl (map_column row) r his)" for r his
    by (induction his arbitrary: r) (simp_all add: map_column_priority_is_double)
  then show ?thesis
    by (simp add: mapRowToRule_def priority_is_double_def)
qed

lemma map_column_empty_name: "map_column row r hi [] = r []"
  by (cases hi) (auto simp add: map_column_def assign_def Let_def utf16_def)

lemma mapRowToRule_empty_name: "mapRowToRule headers row [] = None"
proof -
  have "foldl (map_column row) r his [] = r []" for r his
    by (induction his arbitrary: r) (simp_all add: map_column_empty_name)
  then show ?thesis
    by (simp add: mapRowToRule_def)
qed

lemma mapRowToRule_proto: "mapRowToRule headers row (utf16 ''__proto__'') = None"
proof -
  have "map_column row r hi (utf16 ''__proto__'') = r (utf16 ''__proto__'')" for r hi
    by (cases hi) (auto simp add: map_column_def assign_def Let_def)
  then have "foldl (map_column row) r his (utf16 ''__proto__'') = r (utf16 ''__proto__'')"
    for r his
    by (induction his arbitrary: r) simp_all
  then show ?thesis
    by (simp add: mapRowToRule_def)
qed

lemma map_column_finite_priority:
  "finite_priority r \<Longrightarrow> finite_priority (map_column row r hi)"
proof -
  have "is_double (string_to_number (cell row (snd hi)))"
    by (rule string_to_number_is_double)
  then show "finite_priority r \<Longrightarrow> finite_priority (map_column row r hi)"
    by (cases hi; cases "string_to_number (cell row (snd hi))")
       (auto simp add: map_column_def assign_def Let_def finite_priority_def isFinite_def
          is_double_def on_grid_0 split: option.splits field.splits jsnum.splits)
qed

lemma finite_priority_mapRowToRule: "finite_priority (mapRowToRule headers row)"
proof -
  have "finite_priority r \<Longrightarrow> finite_priority (foldl (map_column row) r his)" for r his
    by (induction his arbitrary: r) (simp_all add: map_column_finite_priority)
  then show ?thesis
    by (simp add: mapRowToRule_def finite_priority_def)
qed

text \<open>
  Where no column is named \<open>__proto__\<close> and no two columns have the same non-empty name,
  every cell of the row is in the rule under the name of its column.
\<close>

lemma mapRowToRule_cells:
  assumes "\<forall>i < length headers. trim (headers ! i) \<noteq> utf16 ''__proto__''"
    and "\<forall>i j. i < j \<and> j < length headers \<longrightarrow>
           trim (headers ! i) = [] \<or> trim (headers ! j) \<noteq> trim (headers ! i)"
  shows "cells_under_header_names headers row (mapRowToRule headers row)"
  unfolding cells_under_header_names_def list_all_iff
proof
  fix i assume "i \<in> set [0..<length headers]"
  then have i: "i < length headers" by simp
  show "trim (headers ! i) = []
      \<or> mapRowToRule headers row (trim (headers ! i)) = Some (stored row (trim (headers ! i)) i)"
  proof (cases "trim (headers ! i) = []")
    case True
    then show ?thesis by simp
  next
    case False
    with assms(2) have "\<forall>j. i < j \<and> j < length headers \<longrightarrow>
        trim (headers ! j) \<noteq> trim (headers ! i)"
      by blast
    with i False assms(1) have "mapRowToRule headers row (trim (headers ! i))
        = Some (stored row (trim (headers ! i)) i)"
      by (intro mapRowToRule_column) simp_all
    then show ?thesis by simp
  qed
qed

section \<open>Evaluation on concrete inputs\<close>

lemmas num_eval = round_frac_def round_pos_def scale_def flog2_def pow2_def round_half_even_def
  compute_bitlen Let_def
lemmas str_eval = string_to_number_def signed_decimal_def unsigned_decimal_def exponent_part_def
  non_decimal_def digits_value_def digit_value_def is_digit_def
lemmas trim_eval = trim_def is_white_space_def utf16_def
lemmas row_eval = mapRowToRule_def map_column_def assign_def cell_def isFinite_def

subsection \<open>trim\<close>

lemma dropWhile_rev_dropWhile:
  "dropWhile P (rev (dropWhile P (rev (dropWhile P s)))) = rev (dropWhile P (rev (dropWhile P s)))"
proof (cases "dropWhile P (rev (dropWhile P s)) = []")
  case True
  show ?thesis unfolding True by simp
next
  case False
  define a where "a = dropWhile P s"
  define b where "b = dropWhile P (rev a)"
  from False have b: "b \<noteq> []" by (simp add: a_def b_def)
  then have a: "a \<noteq> []" by (auto simp add: b_def)
  have "rev a = takeWhile P (rev a) @ b"
    by (simp add: b_def)
  then have "last (rev a) = last b"
    using b by (metis last_appendR)
  then have "last b = hd a"
    using a by (simp add: last_rev)
  moreover have "\<not> P (hd a)"
    using a unfolding a_def by (rule hd_dropWhile)
  ultimately have "\<not> P (hd (rev b))"
    using b by (simp add: hd_rev)
  then have "dropWhile P (rev b) = rev b"
    using b by (cases "rev b") simp_all
  then show ?thesis
    by (simp add: a_def b_def)
qed

lemma trim_trim: "trim (trim s) = trim s"
  by (simp add: trim_def dropWhile_rev_dropWhile)

lemma trim_rule_id: "trim (utf16 ''rule_id'') = utf16 ''rule_id''"
  by (simp add: trim_eval)

subsection \<open>normalize_headers\<close>

lemma normalize_headers_eq: "normalize_headers row0 = (map trim row0)[0 := utf16 ''rule_id'']"
  by (cases row0) (simp_all add: normalize_headers_def Let_def)

lemma length_normalize_headers: "length (normalize_headers row0) = length row0"
  by (simp add: normalize_headers_eq)

lemma normalize_headers_first: "row0 \<noteq> [] \<Longrightarrow> trim (normalize_headers row0 ! 0) = utf16 ''rule_id''"
  by (cases row0) (simp_all add: normalize_headers_eq trim_rule_id)

lemma normalize_headers_later:
  "0 < i \<Longrightarrow> i < length row0 \<Longrightarrow> trim (normalize_headers row0 ! i) = trim (row0 ! i)"
  by (simp add: normalize_headers_eq trim_trim)

section \<open>The load cycle\<close>

lemma elements_update:
  "elements (s\<lparr>heap := (heap s)[a := xs]\<rparr>) b =
     (if b = a \<and> a < length (heap s) then xs else elements s b)"
  by (auto simp add: elements_def array_at_def)

lemma createSheetsClient_cases:
  "createSheetsClient e = Inr () \<or> (\<exists>err. createSheetsClient e = Inl err)"
  by (cases "createSheetsClient e") auto

lemma loadRules_failure:
  assumes "(\<exists>err. createSheetsClient e = Inl err) \<or> reply e = Rejected"
  shows "(\<exists>err. fst (loadRules e s) = Inl err) \<and> snd (loadRules e s) = s"
  using assms by (auto simp add: loadRules_def split: sum.splits)

lemma loadRules_empty:
  assumes "createSheetsClient e = Inr ()" "reply e = Resolved v" "v = None \<or> v = Some []"
  shows "loadRules e s = (Inr (length (heap s)), s\<lparr>heap := heap s @ [[]], rules_binding := length (heap s)\<rparr>)"
  using assms by (auto simp add: loadRules_def alloc_def)

lemma loadedRules_eq:
  "loadedRules headers dataRows =
     map (mapRowToRule headers)
       (filter (\<lambda>row. length row > 0 \<and> has_rule_id (mapRowToRule headers row)) dataRows)"
  by (induction dataRows) (simp_all add: loadedRules_def)

lemma length_loadedRules_le: "length (loadedRules headers dataRows) \<le> length dataRows"
proof -
  have "length (loadedRules headers dataRows)
      \<le> length (map (mapRowToRule headers) (filter (\<lambda>row. length row > 0) dataRows))"
    unfolding loadedRules_def by (rule length_filter_le)
  also have "\<dots> = length (filter (\<lambda>row. length row > 0) dataRows)"
    by simp
  also have "\<dots> \<le> length dataRows"
    by (rule length_filter_le)
  finally show ?thesis .
qed

lemma loadRules_rows:
  assumes "createSheetsClient e = Inr ()" "reply e = Resolved (Some (row0 # dataRows))"
    and "length (loadedRules (normalize_headers row0) dataRows) \<le> max_arguments e"
  shows "loadRules e s =
           (Inr (rules_binding s),
            s\<lparr>heap := (heap s)[rules_binding s := loadedRules (normalize_headers row0) dataRows]\<rparr>)"
proof (cases "rules_binding s < length (heap s)")
  case True
  with assms show ?thesis
    by (simp add: loadRules_def array_write_def elements_def array_at_def Let_def)
next
  case False
  with assms show ?thesis
    by (simp add: loadRules_def array_write_def elements_def array_at_def Let_def)
qed

text \<open>
  The failure after the first write: the sheet gives more rules than \<open>push\<close> takes
  arguments. The promise is rejected, and the array that \<open>rules\<close> names has been emptied.
\<close>

lemma loadRules_too_many:
  assumes "createSheetsClient e = Inr ()" "reply e = Resolved (Some (row0 # dataRows))"
    and "max_arguments e < length (loadedRules (normalize_headers row0) dataRows)"
  shows "loadRules e s = (Inl RangeError, s\<lparr>heap := (heap s)[rules_binding s := []]\<rparr>)"
  using assms by (simp add: loadRules_def array_write_def Let_def)

lemma loadRules_cases:
  obtains (failed) err where "loadRules e s = (Inl err, s)"
  | (empty) "loadRules e s =
      (Inr (length (heap s)), s\<lparr>heap := heap s @ [[]], rules_binding := length (heap s)\<rparr>)"
  | (rows) row0 dataRows where "loadRules e s =
      (Inr (rules_binding s),
       s\<lparr>heap := (heap s)[rules_binding s := loadedRules (normalize_headers row0) dataRows]\<rparr>)"
  | (emptied) "loadRules e s = (Inl RangeError, s\<lparr>heap := (heap s)[rules_binding s := []]\<rparr>)"
proof (cases "createSheetsClient e")
  case (Inl err)
  then have "loadRules e s = (Inl err, s)" by (simp add: loadRules_def)
  then show ?thesis by (rule failed)
next
  case (Inr u)
  then have c: "createSheetsClient e = Inr ()" by simp
  show ?thesis
  proof (cases "reply e")
    case Rejected
    with c have "loadRules e s = (Inl RequestFailed, s)" by (simp add: loadRules_def)
    then show ?thesis by (rule failed)
  next
    case (Resolved v)
    show ?thesis
    proof (cases "v = None \<or> v = Some []")
      case True
      with c Resolved show ?thesis by (intro empty loadRules_empty)
    next
      case False
      then obtain row0 dataRows where v: "v = Some (row0 # dataRows)"
        by (cases v) (auto simp add: neq_Nil_conv)
      show ?thesis
      proof (cases "max_arguments e < length (loadedRules (normalize_headers row0) dataRows)")
        case True
        with c Resolved v show ?thesis
          by (intro emptied loadRules_too_many [of e row0 dataRows])
            simp_all
      next
        case False
        with c Resolved v show ?thesis
          by (intro rows [of row0 dataRows] loadRules_rows) simp_all
      qed
    qed
  qed
qed

text \<open>
  A load cycle that fails before its first write, because \<open>createSheetsClient\<close> throws or
  because the request to the sheet is rejected, changes nothing: the arrays and both
  bindings are as before, the scheduled reload that swallows the error returns the state
  it was given, and every query evaluates as it did before the attempt.
\<close>

lemma early_failure_changes_nothing:
  assumes "(\<exists>err. createSheetsClient e = Inl err) \<or> reply e = Rejected"
  shows "(\<exists>err. fst (loadRules e s) = Inl err)
         \<and> snd (loadRules e s) = s
         \<and> scheduled_reload e s = s
         \<and> selectRule i (scheduled_reload e s) = selectRule i s"
  using loadRules_failure [OF assms, of s] by (simp add: scheduled_reload_def)

text \<open>Every failed load cycle is of one of the two kinds.\<close>

lemma failed_load_cases:
  assumes "fst (loadRules e s) = Inl err"
  shows "snd (loadRules e s) = s
         \<or> err = RangeError \<and> snd (loadRules e s) = s\<lparr>heap := (heap s)[rules_binding s := []]\<rparr>"
  using assms by (cases e s rule: loadRules_cases) simp_all

lemma loadedRules_replicate:
  assumes "length row > 0" "has_rule_id (mapRowToRule headers row)"
  shows "loadedRules headers (replicate n row) = replicate n (mapRowToRule headers row)"
  using assms by (simp add: loadedRules_def)

lemma spec_example_match:
  "fst (selectRule (Some query_print) (state_with [rule_R1, rule_SYS])) = Inr (Some rule_R1)"
  by (simp add: selectRule_result rule_eval query_print_def rule_R1_def rule_SYS_def
      sorted_by_def first_def)

text \<open>
  Claim C4. The claim does not hold of the code: a load cycle can fail after its first
  write. \<open>loadRules\<close> empties the array with \<open>rules.length = 0\<close> and then calls
  \<open>rules.push(...loadedRules)\<close>, which throws a \<open>RangeError\<close> when the sheet gives more
  rules than a call takes arguments. On a sheet of 130000 rows and an engine that takes
  125000 arguments the cycle is rejected, the scheduled reload logs the error, and the
  array that \<open>selectRule\<close> reads is left empty: the query that returned the rule \<open>R1\<close>
  before the failed reload returns \<open>null\<close> after it.
\<close>

theorem large_sheet_reload_empties_rules:
  "createSheetsClient (env_with (Resolved (Some large_sheet))) = Inr ()
   \<and> fst (loadRules (env_with (Resolved (Some large_sheet))) (state_with [rule_R1, rule_SYS]))
       = Inl RangeError
   \<and> elements (state_with [rule_R1, rule_SYS]) (engine_rules (state_with [rule_R1, rule_SYS]))
       = [rule_R1, rule_SYS]
   \<and> elements
        (scheduled_reload (env_with (Resolved (Some large_sheet))) (state_with [rule_R1, rule_SYS]))
        (engine_rules
           (scheduled_reload (env_with (Resolved (Some large_sheet)))
              (state_with [rule_R1, rule_SYS])))
       = []
   \<and> fst (selectRule (Some query_print) (state_with [rule_R1, rule_SYS])) = Inr (Some rule_R1)
   \<and> fst (selectRule (Some query_print)
            (scheduled_reload (env_with (Resolved (Some large_sheet)))
               (state_with [rule_R1, rule_SYS])))
       = Inr None"
proof -
  let ?e = "env_with (Resolved (Some large_sheet))"
  let ?s = "state_with [rule_R1, rule_SYS]"
  let ?h = "[utf16 ''rule_id'']"
  let ?r = "[utf16 ''R1'']"
  have c: "createSheetsClient ?e = Inr ()"
    by (simp add: createSheetsClient_def env_with_def utf16_def)
  have n: "normalize_headers ?h = ?h"
    by (simp add: normalize_headers_def trim_eval)
  have "has_rule_id (mapRowToRule ?h ?r)"
    by (simp add: has_rule_id_def get_prop_def row_eval trim_eval)
  then have "loadedRules ?h (replicate 130000 ?r) = replicate 130000 (mapRowToRule ?h ?r)"
    by (intro loadedRules_replicate) simp_all
  then have len: "length (loadedRules (normalize_headers ?h) (replicate 130000 ?r)) = 130000"
    by (simp only: n length_replicate)
  have r: "reply ?e = Resolved (Some (?h # replicate 130000 ?r))"
    by (simp only: env_with_def large_sheet_def env.simps)
  have m: "max_arguments ?e < length (loadedRules (normalize_headers ?h) (replicate 130000 ?r))"
    unfolding len by (simp add: env_with_def)
  have l: "loadRules ?e ?s = (Inl RangeError, ?s\<lparr>heap := (heap ?s)[rules_binding ?s := []]\<rparr>)"
    using c r m by (rule loadRules_too_many)
  have 1: "fst (loadRules ?e ?s) = Inl RangeError"
    by (simp only: l fst_conv)
  have 2: "elements (scheduled_reload ?e ?s) (engine_rules (scheduled_reload ?e ?s)) = []"
    by (simp only: scheduled_reload_def l snd_conv)
       (simp add: state_with_def elements_def array_at_def)
  have 3: "fst (selectRule (Some query_print) (scheduled_reload ?e ?s)) = Inr None"
    by (simp only: selectRule_result 2) (simp add: first_Nil)
  have 4: "elements ?s (engine_rules ?s) = [rule_R1, rule_SYS]"
    by simp
  from c 1 4 2 spec_example_match 3 show ?thesis
    by (intro conjI)
qed

text \<open>
  Claim C9. A load cycle that succeeds with zero rows binds the variable \<open>rules\<close> of
  loadRules.js to a new empty array and returns it. The array the rule engine imported
  is another one and keeps its elements, so \<open>selectRule\<close> returns after such a load what
  it returned before it.
\<close>

theorem empty_load_rebinds_and_engine_keeps_rules:
  assumes "createSheetsClient e = Inr ()" "reply e = Resolved v" "v = None \<or> v = Some []"
  shows "fst (loadRules e s) = Inr (length (heap s))
         \<and> heap (snd (loadRules e s)) = heap s @ [[]]
         \<and> rules_binding (snd (loadRules e s)) = length (heap s)
         \<and> engine_rules (snd (loadRules e s)) = engine_rules s
         \<and> (engine_rules s < length (heap s) \<longrightarrow>
              rules_binding (snd (loadRules e s)) \<noteq> engine_rules (snd (loadRules e s)))
         \<and> elements (snd (loadRules e s)) (engine_rules (snd (loadRules e s)))
             = elements s (engine_rules s)
         \<and> fst (selectRule (Some q) (snd (loadRules e s))) = fst (selectRule (Some q) s)"
proof -
  have l: "loadRules e s = (Inr (length (heap s)), s\<lparr>heap := heap s @ [[]], rules_binding := length (heap s)\<rparr>)"
    using assms by (rule loadRules_empty)
  have el: "elements (snd (loadRules e s)) (engine_rules (snd (loadRules e s))) = elements s (engine_rules s)"
    by (simp add: l elements_def array_at_def nth_append)
  have "engine_rules (snd (loadRules e s)) = engine_rules s"
    by (simp add: l)
  with el have "fst (selectRule (Some q) (snd (loadRules e s))) = fst (selectRule (Some q) s)"
    by (simp only: selectRule_result)
  with el show ?thesis
    by (simp add: l)
qed

theorem empty_load_rebinds_and_engine_keeps_rules_witness:
  "createSheetsClient (env_with (Resolved None)) = Inr ()
   \<and> reply (env_with (Resolved None)) = Resolved None
   \<and> engine_rules (state_with [rule_R1]) < length (heap (state_with [rule_R1]))
   \<and> rules_binding (snd (loadRules (env_with (Resolved None)) (state_with [rule_R1])))
       \<noteq> engine_rules (snd (loadRules (env_with (Resolved None)) (state_with [rule_R1])))
   \<and> elements (snd (loadRules (env_with (Resolved None)) (state_with [rule_R1])))
        (engine_rules (snd (loadRules (env_with (Resolved None)) (state_with [rule_R1]))))
       = elements (state_with [rule_R1]) (engine_rules (state_with [rule_R1]))
   \<and> fst (selectRule (Some query_print)
            (snd (loadRules (env_with (Resolved None)) (state_with [rule_R1]))))
       = fst (selectRule (Some query_print) (state_with [rule_R1]))"
proof -
  let ?e = "env_with (Resolved None)"
  let ?s = "state_with [rule_R1]"
  have h1: "createSheetsClient ?e = Inr ()"
    by (simp add: createSheetsClient_def env_with_def utf16_def)
  have h2: "reply ?e = Resolved None"
    by (simp add: env_with_def)
  have h3: "None = None \<or> None = Some ([] :: jsstring list list)"
    by simp
  have h4: "engine_rules ?s < length (heap ?s)"
    by (simp add: state_with_def)
  from empty_load_rebinds_and_engine_keeps_rules [OF h1 h2 h3, of ?s query_print] h1 h2 h4
  show ?thesis
    by blast
qed

section \<open>What a load puts into the array\<close>

text \<open>
  After a load cycle that received a header row and data rows, and no more rules than
  \<open>push\<close> takes arguments, the array named by \<open>rules\<close> holds exactly the rules mapped from
  the data rows that have at least one cell and whose mapped \<open>rule_id\<close> is truthy, one
  rule per such row, in the order of the rows. The names of the columns are those of the
  normalised header row: cell trimmed, and the first column named \<open>rule_id\<close> whatever its
  header says. In each rule, a column with a non-empty name other than \<open>__proto__\<close> holds
  the trimmed cell of the row at that index (for \<open>priority\<close> the number it converts to),
  provided no later column has the same name; a name that no column has is absent, and
  so are the empty name and the name \<open>__proto__\<close>.
\<close>

lemma loadRules_array_contents:
  assumes "createSheetsClient e = Inr ()"
    and "reply e = Resolved (Some (row0 # dataRows))"
    and "length (loadedRules (normalize_headers row0) dataRows) \<le> max_arguments e"
    and "rules_binding s < length (heap s)"
  shows "elements (snd (loadRules e s)) (rules_binding (snd (loadRules e s)))
           = map (mapRowToRule (normalize_headers row0))
               (filter (\<lambda>row. length row > 0
                          \<and> has_rule_id (mapRowToRule (normalize_headers row0) row)) dataRows)
         \<and> length (normalize_headers row0) = length row0
         \<and> (row0 \<noteq> [] \<longrightarrow> trim (normalize_headers row0 ! 0) = utf16 ''rule_id'')
         \<and> (\<forall>i. 0 < i \<and> i < length row0 \<longrightarrow>
               trim (normalize_headers row0 ! i) = trim (row0 ! i))
         \<and> (\<forall>row i. i < length row0
               \<and> trim (normalize_headers row0 ! i) \<noteq> []
               \<and> trim (normalize_headers row0 ! i) \<noteq> utf16 ''__proto__''
               \<and> (\<forall>j. i < j \<and> j < length row0 \<longrightarrow>
                     trim (normalize_headers row0 ! j) \<noteq> trim (normalize_headers row0 ! i))
               \<longrightarrow> mapRowToRule (normalize_headers row0) row (trim (normalize_headers row0 ! i))
                     = Some (stored row (trim (normalize_headers row0 ! i)) i))
         \<and> (\<forall>row k. (\<forall>j < length row0. trim (normalize_headers row0 ! j) \<noteq> k)
               \<longrightarrow> mapRowToRule (normalize_headers row0) row k = None)
         \<and> (\<forall>row. mapRowToRule (normalize_headers row0) row [] = None)
         \<and> (\<forall>row. mapRowToRule (normalize_headers row0) row (utf16 ''__proto__'') = None)"
proof -
  have l: "loadRules e s =
      (Inr (rules_binding s),
       s\<lparr>heap := (heap s)[rules_binding s := loadedRules (normalize_headers row0) dataRows]\<rparr>)"
    using assms(1,2,3) by (rule loadRules_rows)
  have 1: "elements (snd (loadRules e s)) (rules_binding (snd (loadRules e s)))
      = map (mapRowToRule (normalize_headers row0))
          (filter (\<lambda>row. length row > 0
                     \<and> has_rule_id (mapRowToRule (normalize_headers row0) row)) dataRows)"
    using assms(4) by (simp add: l elements_update loadedRules_eq)
  have 2: "\<forall>row i. i < length row0
        \<and> trim (normalize_headers row0 ! i) \<noteq> []
        \<and> trim (normalize_headers row0 ! i) \<noteq> utf16 ''__proto__''
        \<and> (\<forall>j. i < j \<and> j < length row0 \<longrightarrow>
              trim (normalize_headers row0 ! j) \<noteq> trim (normalize_headers row0 ! i))
        \<longrightarrow> mapRowToRule (normalize_headers row0) row (trim (normalize_headers row0 ! i))
              = Some (stored row (trim (normalize_headers row0 ! i)) i)"
    using mapRowToRule_column [of _ "normalize_headers row0"]
    by (simp add: length_normalize_headers)
  have 3: "\<forall>row k. (\<forall>j < length row0. trim (normalize_headers row0 ! j) \<noteq> k)
        \<longrightarrow> mapRowToRule (normalize_headers row0) row k = None"
    using mapRowToRule_absent [of "normalize_headers row0"]
    by (simp add: length_normalize_headers)
  have 4: "length (normalize_headers row0) = length row0"
    by (rule length_normalize_headers)
  have 5: "row0 \<noteq> [] \<longrightarrow> trim (normalize_headers row0 ! 0) = utf16 ''rule_id''"
    by (simp add: normalize_headers_first)
  have 6: "\<forall>i. 0 < i \<and> i < length row0 \<longrightarrow>
      trim (normalize_headers row0 ! i) = trim (row0 ! i)"
    by (simp add: normalize_headers_later)
  have 7: "\<forall>row. mapRowToRule (normalize_headers row0) row [] = None"
    by (simp add: mapRowToRule_empty_name)
  have 8: "\<forall>row. mapRowToRule (normalize_headers row0) row (utf16 ''__proto__'') = None"
    by (simp add: mapRowToRule_proto)
  from 1 4 5 6 2 3 7 8 show ?thesis
    by (intro conjI)
qed

text \<open>
  Claim C5. The claim does not hold of the code where a column is named \<open>__proto__\<close>.
  On the header row \<open>rule_id, __proto__\<close> and the data row \<open>R1, x\<close> the row is retained
  as one rule, with \<open>R1\<close> under \<open>rule_id\<close>, but the cell \<open>x\<close> is not in the rule under the
  name of its column, nor under any other name: the assignment
  \<open>rule['__proto__'] = 'x'\<close> on an object made by \<open>{}\<close> runs the setter of
  \<open>Object.prototype\<close>, which ignores a string, and no property is created. (The rows of a
  sheet with more rules than \<open>push\<close> takes arguments are lost as well: the array is left
  empty, by \<open>loadRules_too_many\<close>.)
\<close>

theorem proto_column_cell_is_not_stored:
  "elements
     (snd (loadRules (env_with (Resolved (Some [header_proto, row_proto]))) init_state))
     (engine_rules
        (snd (loadRules (env_with (Resolved (Some [header_proto, row_proto]))) init_state)))
     = [mapRowToRule (normalize_headers header_proto) row_proto]
   \<and> normalize_headers header_proto = [utf16 ''rule_id'', utf16 ''__proto__'']
   \<and> trim (normalize_headers header_proto ! 1) = utf16 ''__proto__''
   \<and> cell row_proto 1 = utf16 ''x''
   \<and> mapRowToRule (normalize_headers header_proto) row_proto (utf16 ''rule_id'')
       = Some (FStr (utf16 ''R1''))
   \<and> mapRowToRule (normalize_headers header_proto) row_proto (utf16 ''__proto__'') = None
   \<and> dom (mapRowToRule (normalize_headers header_proto) row_proto) = {utf16 ''rule_id''}
   \<and> \<not> cells_under_header_names (normalize_headers header_proto) row_proto
         (mapRowToRule (normalize_headers header_proto) row_proto)"
proof -
  let ?e = "env_with (Resolved (Some [header_proto, row_proto]))"
  have n: "normalize_headers header_proto = [utf16 ''rule_id'', utf16 ''__proto__'']"
    by (simp add: normalize_headers_def header_proto_def trim_eval)
  have t: "trim (utf16 ''__proto__'') = utf16 ''__proto__''"
    by (simp add: trim_eval)
  have m: "mapRowToRule [utf16 ''rule_id'', utf16 ''__proto__''] row_proto
      = [utf16 ''rule_id'' \<mapsto> FStr (utf16 ''R1'')]"
    by (simp add: row_proto_def row_eval Let_def trim_eval)
  have ld: "loadedRules (normalize_headers header_proto) [row_proto]
      = [mapRowToRule (normalize_headers header_proto) row_proto]"
    by (simp add: loadedRules_def has_rule_id_def get_prop_def n m) (simp add: row_proto_def)
  have "loadRules ?e init_state =
      (Inr (rules_binding init_state),
       init_state\<lparr>heap := (heap init_state)[rules_binding init_state :=
          loadedRules (normalize_headers header_proto) [row_proto]]\<rparr>)"
    by (intro loadRules_rows)
       (simp_all add: createSheetsClient_def env_with_def utf16_def ld)
  then have 1: "elements (snd (loadRules ?e init_state))
      (engine_rules (snd (loadRules ?e init_state)))
      = [mapRowToRule (normalize_headers header_proto) row_proto]"
    by (simp add: init_state_def elements_def array_at_def ld)
  have 2: "trim (normalize_headers header_proto ! 1) = utf16 ''__proto__''"
    by (simp add: n t)
  have 3: "cell row_proto 1 = utf16 ''x''"
    by (simp add: row_proto_def cell_def trim_eval)
  have 4: "mapRowToRule (normalize_headers header_proto) row_proto (utf16 ''rule_id'')
      = Some (FStr (utf16 ''R1''))"
    by (simp add: n m)
  have 5: "mapRowToRule (normalize_headers header_proto) row_proto (utf16 ''__proto__'') = None"
    by (simp add: n m)
  have 6: "dom (mapRowToRule (normalize_headers header_proto) row_proto) = {utf16 ''rule_id''}"
    by (simp add: n m)
  have 7: "\<not> cells_under_header_names (normalize_headers header_proto) row_proto
      (mapRowToRule (normalize_headers header_proto) row_proto)"
    by (simp add: cells_under_header_names_def n m t)
  from 1 n 2 3 4 5 6 7 show ?thesis
    by (intro conjI)
qed

text \<open>
  Claim C6, amended. The field \<open>priority\<close> of a rule is \<open>Number\<close> applied to the trimmed
  cell of the last column named \<open>priority\<close>: a double, which need not be an integer. When
  that conversion gives NaN or an infinity the field is \<open>0\<close>; an empty or missing cell
  gives \<open>0\<close> as well. The field is always finite.
\<close>

theorem priority_is_number_of_cell:
  assumes "i < length headers"
    and "trim (headers ! i) = utf16 ''priority''"
    and "\<forall>j. i < j \<and> j < length headers \<longrightarrow> trim (headers ! j) \<noteq> utf16 ''priority''"
  shows "mapRowToRule headers row (utf16 ''priority'')
           = Some (FNum (if isFinite (string_to_number (cell row i))
                         then string_to_number (cell row i) else Fin 0))
         \<and> isFinite (priority_number (mapRowToRule headers row))
         \<and> is_double (priority_number (mapRowToRule headers row))
         \<and> (cell row i = [] \<longrightarrow> priority_number (mapRowToRule headers row) = Fin 0)"
proof -
  have ne: "utf16 ''priority'' \<noteq> []" "utf16 ''priority'' \<noteq> utf16 ''__proto__''"
    by (simp_all add: utf16_def)
  have "mapRowToRule headers row (trim (headers ! i)) = Some (stored row (trim (headers ! i)) i)"
    using assms ne by (intro mapRowToRule_column) simp_all
  then have m: "mapRowToRule headers row (utf16 ''priority'')
      = Some (FNum (if isFinite (string_to_number (cell row i))
                    then string_to_number (cell row i) else Fin 0))"
    by (simp add: assms(2) stored_def)
  have z: "string_to_number [] = Fin 0"
    by (simp add: string_to_number_def trim_def)
  have d: "is_double (priority_number (mapRowToRule headers row))"
    by (intro priority_number_is_double priority_is_double_mapRowToRule)
  from m z d show ?thesis
    by (auto simp add: priority_number_def isFinite_def)
qed

theorem priority_is_number_of_cell_witness:
  "1 < length [utf16 ''rule_id'', utf16 '' priority '', utf16 ''note'']
   \<and> trim ([utf16 ''rule_id'', utf16 '' priority '', utf16 ''note''] ! 1) = utf16 ''priority''
   \<and> trim ([utf16 ''rule_id'', utf16 '' priority '', utf16 ''note''] ! 2) \<noteq> utf16 ''priority''
   \<and> mapRowToRule [utf16 ''rule_id'', utf16 '' priority '', utf16 ''note''] [utf16 ''R1'']
        (utf16 ''priority'')
       = Some (FNum (if isFinite (string_to_number (cell [utf16 ''R1''] 1))
                     then string_to_number (cell [utf16 ''R1''] 1) else Fin 0))
   \<and> isFinite (priority_number
        (mapRowToRule [utf16 ''rule_id'', utf16 '' priority '', utf16 ''note''] [utf16 ''R1'']))
   \<and> is_double (priority_number
        (mapRowToRule [utf16 ''rule_id'', utf16 '' priority '', utf16 ''note''] [utf16 ''R1'']))
   \<and> cell [utf16 ''R1''] 1 = []
   \<and> priority_number
        (mapRowToRule [utf16 ''rule_id'', utf16 '' priority '', utf16 ''note''] [utf16 ''R1''])
       = Fin 0"
proof -
  let ?h = "[utf16 ''rule_id'', utf16 '' priority '', utf16 ''note'']"
  have h1: "1 < length ?h" by simp
  have h2: "trim (?h ! 1) = utf16 ''priority''" by (simp add: trim_eval)
  have h3': "trim (?h ! 2) \<noteq> utf16 ''priority''" by (simp add: trim_eval)
  have h3: "\<forall>j. 1 < j \<and> j < length ?h \<longrightarrow> trim (?h ! j) \<noteq> utf16 ''priority''"
  proof (intro allI impI)
    fix j assume "1 < j \<and> j < length ?h"
    then have "j = 2" by simp
    with h3' show "trim (?h ! j) \<noteq> utf16 ''priority''" by simp
  qed
  have h4: "cell [utf16 ''R1''] 1 = []" by (simp add: cell_def)
  from priority_is_number_of_cell [OF h1 h2 h3, of "[utf16 ''R1'']"] h1 h2 h3' h4
  show ?thesis
    by blast
qed

text \<open>The claim as worded fails on the cell \<open>1.5\<close>: the priority stored is not an integer.\<close>

theorem fractional_priority_counterexample:
  "\<not> isInteger (priority_number
        (mapRowToRule [utf16 ''rule_id'', utf16 ''priority''] [utf16 ''R1'', utf16 ''1.5'']))"
proof -
  have "mapRowToRule [utf16 ''rule_id'', utf16 ''priority''] [utf16 ''R1'', utf16 ''1.5'']
      (utf16 ''priority'') = Some (FNum (Fin (3 / 2)))"
    by (simp add: row_eval trim_eval str_eval num_eval)
  then have "priority_number
      (mapRowToRule [utf16 ''rule_id'', utf16 ''priority''] [utf16 ''R1'', utf16 ''1.5''])
      = Fin (3 / 2)"
    by (simp add: priority_number_def)
  moreover have "\<lfloor>3 / 2 :: rat\<rfloor> = 1"
    by (simp add: floor_eq_iff)
  ultimately show ?thesis
    by (simp add: isInteger_def)
qed

text \<open>The five rows of the example sheet give two rules.\<close>

lemma sheet_rows_loaded:
  "map (\<lambda>r. (r (utf16 ''rule_id''), r (utf16 ''usage''), r (utf16 ''priority'')))
     (elements (snd (loadRules (env_with (Resolved (Some sheet_rows))) init_state)) 0)
   = [(Some (FStr (utf16 ''R1'')), Some (FStr (utf16 ''print'')), Some (FNum (Fin (3 / 2)))),
      (Some (FStr (utf16 ''R2'')), Some (FStr (utf16 ''web'')), Some (FNum (Fin 0)))]"
proof -
  have "length (loadedRules (normalize_headers (hd sheet_rows)) (tl sheet_rows))
      \<le> length (tl sheet_rows)"
    by (rule length_loadedRules_le)
  also have "\<dots> \<le> max_arguments (env_with (Resolved (Some sheet_rows)))"
    by (simp add: sheet_rows_def env_with_def)
  finally have "loadRules (env_with (Resolved (Some sheet_rows))) init_state =
      (Inr (rules_binding init_state),
       init_state\<lparr>heap := (heap init_state)[rules_binding init_state :=
          loadedRules (normalize_headers (hd sheet_rows)) (tl sheet_rows)]\<rparr>)"
    by (intro loadRules_rows) (simp_all add: createSheetsClient_def env_with_def sheet_rows_def utf16_def)
  then show ?thesis
    by (simp add: init_state_def elements_def array_at_def sheet_rows_def normalize_headers_def
        loadedRules_def has_rule_id_def get_prop_def row_eval trim_eval str_eval num_eval)
qed

section \<open>The rules the engine can see\<close>

lemma loadedRules_ok: "r \<in> set (loadedRules headers dataRows) \<Longrightarrow> rule_ok r"
  by (auto simp add: loadedRules_def rule_ok_def finite_priority_mapRowToRule
      dest: has_rule_id_mapRowToRule)

lemma loadRules_engine_ok:
  assumes "\<forall>r \<in> set (elements s (engine_rules s)). rule_ok r"
  shows "\<forall>r \<in> set (elements (snd (loadRules e s)) (engine_rules (snd (loadRules e s)))). rule_ok r"
proof (cases e s rule: loadRules_cases)
  case (failed err)
  with assms show ?thesis by simp
next
  case empty
  with assms show ?thesis by (simp add: elements_def array_at_def nth_append)
next
  case (rows row0 dataRows)
  with assms show ?thesis by (auto simp add: elements_update dest: loadedRules_ok)
next
  case emptied
  with assms show ?thesis by (auto simp add: elements_update)
qed

lemma selectRule_engine_rules: "engine_rules (snd (selectRule i s)) = engine_rules s"
proof -
  obtain ys where "snd (selectRule i s) = s\<lparr>heap := heap s @ ys\<rparr>"
    using selectRule_frame by blast
  then show ?thesis by simp
qed

lemma decide_font_state:
  "snd (decide_font b s) = s \<or> (\<exists>q. snd (decide_font b s) = snd (selectRule (Some q) s))"
proof -
  let ?b = "case b of
              None \<Rightarrow> \<lparr>usage = Undefined, audience = Undefined, density = Undefined,
                        tone = Undefined\<rparr>
            | Some q \<Rightarrow> q"
  let ?q = "\<lparr>usage = usage ?b, audience = audience ?b, density = density ?b, tone = tone ?b\<rparr>"
  have "snd (decide_font b s) = s \<or> snd (decide_font b s) = snd (selectRule (Some ?q) s)"
    by (simp add: decide_font_def Let_def split: prod.split sum.split option.split)
  then show ?thesis by blast
qed

lemma reachable_engine_ok:
  "reachable s \<Longrightarrow> \<forall>r \<in> set (elements s (engine_rules s)). rule_ok r"
proof (induction rule: reachable.induct)
  case reachable_init
  show ?case by (simp add: init_state_def elements_def array_at_def)
next
  case (reachable_load s e)
  then show ?case by (intro loadRules_engine_ok)
next
  case (reachable_select s i)
  then show ?case by (simp add: selectRule_elements)
next
  case (reachable_decide s b)
  then show ?case
    using decide_font_state [of b s] by (auto simp add: selectRule_elements)
qed


text \<open>
  In every state the program reaches, the rules that \<open>selectRule\<close> reads have a finite
  double or nothing in the field \<open>priority\<close>, and both bindings name an allocated array.
\<close>

lemma reachable_finite_priority:
  "reachable s \<Longrightarrow> \<forall>r \<in> set (elements s (engine_rules s)). finite_priority r"
  using reachable_engine_ok by (auto simp add: rule_ok_def)

lemma reachable_priority_is_double:
  "reachable s \<Longrightarrow> \<forall>r \<in> set (elements s (engine_rules s)). priority_is_double r"
  using reachable_finite_priority by (auto simp add: priority_is_double_stored)

lemma reachable_addresses:
  "reachable s \<Longrightarrow> rules_binding s < length (heap s) \<and> engine_rules s < length (heap s)"
proof (induction rule: reachable.induct)
  case reachable_init
  show ?case by (simp add: init_state_def)
next
  case (reachable_load s e)
  then show ?case
    by (cases e s rule: loadRules_cases) auto
next
  case (reachable_select s i)
  obtain ys where "snd (selectRule i s) = s\<lparr>heap := heap s @ ys\<rparr>"
    using selectRule_frame by blast
  with reachable_select.IH show ?case by simp
next
  case (reachable_decide s b)
  from decide_font_state [of b s] show ?case
  proof
    assume "snd (decide_font b s) = s"
    with reachable_decide.IH show ?thesis by simp
  next
    assume "\<exists>q. snd (decide_font b s) = snd (selectRule (Some q) s)"
    then obtain q where q: "snd (decide_font b s) = snd (selectRule (Some q) s)" ..
    obtain ys where "snd (selectRule (Some q) s) = s\<lparr>heap := heap s @ ys\<rparr>"
      using selectRule_frame by blast
    with q reachable_decide.IH show ?thesis by simp
  qed
qed

text \<open>
  Claim C10. In every state the program reaches, and so after every completed call of
  \<open>loadRules\<close>, each element of the array that \<open>selectRule\<close> reads has a truthy
  \<open>rule_id\<close>, which is a non-empty string.
\<close>

theorem engine_rules_all_have_rule_id:
  assumes "reachable s"
  shows "(\<forall>r \<in> set (elements s (engine_rules s)).
            has_rule_id r \<and> (\<exists>v. r (utf16 ''rule_id'') = Some (FStr v) \<and> v \<noteq> []))
         \<and> (\<forall>e. \<forall>r \<in> set (elements (snd (loadRules e s)) (engine_rules (snd (loadRules e s)))).
            has_rule_id r \<and> (\<exists>v. r (utf16 ''rule_id'') = Some (FStr v) \<and> v \<noteq> []))"
proof -
  have *: "rule_ok r \<Longrightarrow> has_rule_id r \<and> (\<exists>v. r (utf16 ''rule_id'') = Some (FStr v) \<and> v \<noteq> [])" for r
    by (auto simp add: rule_ok_def has_rule_id_def get_prop_def)
  from assms have "reachable (snd (loadRules e s))" for e
    by (rule reachable_load)
  with assms show ?thesis
    using * reachable_engine_ok by blast
qed

theorem engine_rules_all_have_rule_id_witness:
  "reachable (snd (loadRules (env_with (Resolved (Some sheet_rows))) init_state))
   \<and> length (elements (snd (loadRules (env_with (Resolved (Some sheet_rows))) init_state))
        (engine_rules (snd (loadRules (env_with (Resolved (Some sheet_rows))) init_state)))) = 2
   \<and> list_all (\<lambda>r. has_rule_id r \<and> (\<exists>v. r (utf16 ''rule_id'') = Some (FStr v) \<and> v \<noteq> []))
        (elements (snd (loadRules (env_with (Resolved (Some sheet_rows))) init_state))
           (engine_rules (snd (loadRules (env_with (Resolved (Some sheet_rows))) init_state))))"
proof -
  let ?s = "snd (loadRules (env_with (Resolved (Some sheet_rows))) init_state)"
  have h: "reachable ?s"
    by (intro reachable_load reachable_init)
  have e: "engine_rules ?s = 0"
    by (cases "env_with (Resolved (Some sheet_rows))" init_state rule: loadRules_cases)
       (simp_all add: init_state_def)
  have "length (map (\<lambda>r. (r (utf16 ''rule_id''), r (utf16 ''usage''), r (utf16 ''priority'')))
      (elements ?s 0)) = 2"
    by (simp only: sheet_rows_loaded) simp
  then have n: "length (elements ?s (engine_rules ?s)) = 2"
    by (simp add: e)
  from engine_rules_all_have_rule_id [OF h] have
    "\<forall>r \<in> set (elements ?s (engine_rules ?s)).
       has_rule_id r \<and> (\<exists>v. r (utf16 ''rule_id'') = Some (FStr v) \<and> v \<noteq> [])"
    by (rule conjunct1)
  then have
    "list_all (\<lambda>r. has_rule_id r \<and> (\<exists>v. r (utf16 ''rule_id'') = Some (FStr v) \<and> v \<noteq> []))
       (elements ?s (engine_rules ?s))"
    by (simp only: list_all_iff)
  with h n show ?thesis
    by (intro conjI)
qed

section \<open>A query with a missing field\<close>

text \<open>
  Claim C3, amended. \<open>selectRule\<close> throws only when it is called without an input
  object, and then it changes nothing. Called with an input object it always returns,
  also when one of the four fields is missing: the missing field is \<open>undefined\<close> in the
  comparisons. It is the handler of \<open>POST /tti/decide-font\<close> that refuses a request with
  a missing field, with status 400 and without calling \<open>selectRule\<close>.
\<close>

theorem missing_field_is_rejected_by_handler_only:
  "(\<exists>r. fst (selectRule (Some q) s) = Inr r)
   \<and> selectRule None s = (Inl InputRequired, s)
   \<and> (usage q = Undefined \<or> audience q = Undefined \<or> density q = Undefined
        \<or> tone q = Undefined \<longrightarrow> decide_font (Some q) s = (Status400, s))
   \<and> decide_font None s = (Status400, s)"
proof -
  have a: "\<exists>r. fst (selectRule (Some q) s) = Inr r"
    by (simp add: selectRule_result)
  have b: "selectRule None s = (Inl InputRequired, s)"
    by (simp add: selectRule_def)
  have c: "usage q = Undefined \<or> audience q = Undefined \<or> density q = Undefined
      \<or> tone q = Undefined \<longrightarrow> decide_font (Some q) s = (Status400, s)"
    by (auto simp add: decide_font_def)
  have d: "decide_font None s = (Status400, s)"
    by (simp add: decide_font_def)
  from a b c d show ?thesis
    by (intro conjI)
qed

theorem missing_field_is_rejected_by_handler_only_witness:
  "(\<exists>r. fst (selectRule (Some query_no_usage) (state_with [rule_R1, rule_SYS])) = Inr r)
   \<and> selectRule None (state_with [rule_R1, rule_SYS]) = (Inl InputRequired, state_with [rule_R1, rule_SYS])
   \<and> (usage query_no_usage = Undefined \<or> audience query_no_usage = Undefined
        \<or> density query_no_usage = Undefined \<or> tone query_no_usage = Undefined)
   \<and> decide_font (Some query_no_usage) (state_with [rule_R1, rule_SYS])
       = (Status400, state_with [rule_R1, rule_SYS])"
proof -
  have h: "usage query_no_usage = Undefined \<or> audience query_no_usage = Undefined
      \<or> density query_no_usage = Undefined \<or> tone query_no_usage = Undefined"
    by (simp add: query_no_usage_def)
  from missing_field_is_rejected_by_handler_only
    [of query_no_usage "state_with [rule_R1, rule_SYS]"] h
  show ?thesis
    by blast
qed

text \<open>
  The claim as worded fails on a query without \<open>usage\<close>: \<open>selectRule\<close> returns the
  fallback rule.
\<close>

theorem missing_field_not_an_error_counterexample:
  "fst (selectRule (Some query_no_usage) (state_with [rule_R1, rule_SYS])) = Inr (Some rule_SYS)"
  by (simp add: selectRule_result rule_eval query_no_usage_def rule_R1_def rule_SYS_def
      first_def)

end
